theory Spec2Isabelle
  imports Main "HOL-Library.AList" "HOL-Library.Word" "HOL-Library.Code_Target_Numeral"
begin

section \<open>csvdoc: binding CSV columns to struct fields\<close>

text \<open>
  A shallow embedding of the Go package \<^verbatim>\<open>csvdoc\<close>: the schema resolver
  (\<^verbatim>\<open>buildReflectTagIndexCache\<close>), the header binders, the converter tables and the
  per-row operations of \<^verbatim>\<open>FileReader\<close> and \<^verbatim>\<open>FileWriter\<close>, together with what they
  use of \<^verbatim>\<open>reflect\<close>, \<^verbatim>\<open>strconv\<close>, \<^verbatim>\<open>os\<close> and \<^verbatim>\<open>encoding/csv\<close>. A string is a list
  of bytes.

  Go maps are association lists with distinct keys: lookup is \<^const>\<open>map_of\<close>, an
  assignment \<^verbatim>\<open>m[k] = v\<close> is \<^const>\<open>AList.update\<close>, and a \<^verbatim>\<open>range\<close> loop
  visits the list in its order. Go leaves the order of a \<^verbatim>\<open>range\<close> over a map open, so
  a statement about such a loop is made for every list that holds the same entries.
\<close>

subsection \<open>Errors (errors.go)\<close>

datatype go_error =
    ErrStructTagNotInCSV
  | ErrDuplicateHeaderInCSV
  | ErrStructTagDuplicate
  | ErrConverterNotFoundForType
  | ErrNotFoundHeaderInCSV
  | ErrTypeOverflow
  | ErrToFewStructTags
  | ErrSyntax
  | ErrRange
  | ErrorString string
  | EOF
  | ErrFieldCount
  | ErrInvalidDelim
  | ErrBareQuote
  | ErrQuote
  | ErrNotExist
  | ErrClosed
  | IOError string

text \<open>
  A call ends with a value, with an error value, or in a run-time panic, or it waits for
  a lock that is never released and does not return (\<open>Deadlock\<close>). \<open>ReflectKind\<close> is
  reflect's panic on a value of the wrong kind or type, \<open>ReflectUnexported\<close> its panic on
  a value obtained from an unexported field; both carry the name of the method.
\<close>

datatype panic = IndexOutOfRange | NilFuncCall | ReflectKind string | ReflectUnexported string

datatype failure = Error go_error | Panic panic | Deadlock

subsection \<open>Struct types as reflection sees them\<close>

datatype gotype =
    TInt64 | TInt32 | TInt16 | TInt8 | TInt
  | TUint64 | TUint32 | TUint16 | TUint8 | TUint
  | TFloat64 | TFloat32
  | TString | TBool | TTime
  | TNullString | TNullInt64 | TNullInt32 | TNullInt16
  | TNullTime | TNullFloat64 | TNullBool
  | TOther string

text \<open>
  A field of the record type: its declared type, the value of its \<^verbatim>\<open>csv\<close> tag,
  \<open>None\<close> when the field has no such tag (\<^verbatim>\<open>Tag.Lookup("csv")\<close> is not ok), and whether
  its name is exported. \<^verbatim>\<open>elemVal.Field(i)\<close> of an unexported field is read-only: reflect
  refuses to set it and to hand it out with \<^verbatim>\<open>Interface()\<close>.
\<close>

record StructField =
  Type :: gotype
  Tag :: "string option"
  IsExported :: bool

type_synonym struct_type = "StructField list"

subsection \<open>Schema resolver (csvdoc.go, reader.go)\<close>

text \<open>\<^verbatim>\<open>strings.Split(tag, ",")\<close>: every comma separates; the result is never empty.\<close>

fun strings_Split :: "string \<Rightarrow> string list" where
  "strings_Split [] = [[]]"
| "strings_Split (c # cs) =
     (if c = CHR '','' then [] # strings_Split cs
      else (case strings_Split cs of
              [] \<Rightarrow> [[c]]
            | seg # segs \<Rightarrow> (c # seg) # segs))"

text \<open>
  The loop of \<^verbatim>\<open>buildReflectTagIndexCache[T](forWrite)\<close> over the fields \<open>i\<close>,
  \<open>i + 1\<close>, ... with the map built so far.
\<close>

fun tag_loop ::
  "bool \<Rightarrow> StructField list \<Rightarrow> nat \<Rightarrow> (string \<times> nat) list \<Rightarrow> go_error + (string \<times> nat) list"
where
  "tag_loop forWrite [] i fieldIndexes = Inr fieldIndexes"
| "tag_loop forWrite (f # fs) i fieldIndexes =
     (case Tag f of
        None \<Rightarrow> tag_loop forWrite fs (Suc i) fieldIndexes
      | Some tag \<Rightarrow>
          (let readTag = strings_Split tag;
               readTag = (if forWrite \<and> length readTag > 1 then tl readTag else readTag)
           in if map_of fieldIndexes (hd readTag) \<noteq> None then Inl ErrStructTagDuplicate
              else if hd readTag \<noteq> [] \<and> hd readTag \<noteq> ''-''
                then tag_loop forWrite fs (Suc i) (AList.update (hd readTag) i fieldIndexes)
                else tag_loop forWrite fs (Suc i) fieldIndexes))"

definition buildReflectTagIndexCache :: "struct_type \<Rightarrow> bool \<Rightarrow> go_error + (string \<times> nat) list" where
  "buildReflectTagIndexCache T forWrite = tag_loop forWrite T 0 []"

text \<open>The older resolver of reader.go has no \<^verbatim>\<open>forWrite\<close> and always takes segment 0.\<close>

fun read_tag_loop ::
  "StructField list \<Rightarrow> nat \<Rightarrow> (string \<times> nat) list \<Rightarrow> go_error + (string \<times> nat) list"
where
  "read_tag_loop [] i fieldIndexes = Inr fieldIndexes"
| "read_tag_loop (f # fs) i fieldIndexes =
     (case Tag f of
        Some tag \<Rightarrow>
          (let readTag = strings_Split tag
           in if map_of fieldIndexes (hd readTag) \<noteq> None then Inl ErrStructTagDuplicate
              else if hd readTag \<noteq> [] \<and> hd readTag \<noteq> ''-''
                then read_tag_loop fs (Suc i) (AList.update (hd readTag) i fieldIndexes)
                else read_tag_loop fs (Suc i) fieldIndexes)
      | None \<Rightarrow> read_tag_loop fs (Suc i) fieldIndexes)"

definition buildReflectTagIndexCache_read :: "struct_type \<Rightarrow> go_error + (string \<times> nat) list" where
  "buildReflectTagIndexCache_read T = read_tag_loop T 0 []"

subsection \<open>Read-side header binder (reader.go)\<close>

text \<open>The first loop of \<^verbatim>\<open>buildHeaderNameIndexCache\<close>, at header position \<open>i\<close>.\<close>

fun header_loop ::
  "string list \<Rightarrow> nat \<Rightarrow> (string \<times> nat) list \<Rightarrow> (string \<times> nat) list \<Rightarrow> (nat \<times> string) list
     \<Rightarrow> go_error + ((string \<times> nat) list \<times> (nat \<times> string) list)"
where
  "header_loop [] i tFieldsIndexes nameIndex indexName = Inr (nameIndex, indexName)"
| "header_loop (col # cols) i tFieldsIndexes nameIndex indexName =
     (if map_of nameIndex col \<noteq> None then Inl ErrDuplicateHeaderInCSV
      else if map_of tFieldsIndexes col \<noteq> None
        then header_loop cols (Suc i) tFieldsIndexes
               (AList.update col i nameIndex) (AList.update i col indexName)
        else header_loop cols (Suc i) tFieldsIndexes nameIndex indexName)"

text \<open>The second loop: \<^verbatim>\<open>for k := range tFieldsIndexes\<close>.\<close>

fun tags_in_header :: "(string \<times> nat) list \<Rightarrow> (string \<times> nat) list \<Rightarrow> go_error option" where
  "tags_in_header [] nameIndex = None"
| "tags_in_header ((k, v) # rest) nameIndex =
     (if map_of nameIndex k = None then Some ErrStructTagNotInCSV
      else tags_in_header rest nameIndex)"

definition buildHeaderNameIndexCache ::
  "string list \<Rightarrow> (string \<times> nat) list
     \<Rightarrow> go_error + ((string \<times> nat) list \<times> (nat \<times> string) list)"
where
  "buildHeaderNameIndexCache headerLine tFieldsIndexes =
     (case header_loop headerLine 0 tFieldsIndexes [] [] of
        Inl err \<Rightarrow> Inl err
      | Inr (nameIndex, indexName) \<Rightarrow>
          (case tags_in_header tFieldsIndexes nameIndex of
             Some err \<Rightarrow> Inl err
           | None \<Rightarrow> Inr (nameIndex, indexName)))"

text \<open>\<^verbatim>\<open>buildReadHeaderNameIndexCache\<close>, the newer copy in reader.go, has the same body.\<close>

definition buildReadHeaderNameIndexCache ::
  "string list \<Rightarrow> (string \<times> nat) list
     \<Rightarrow> go_error + ((string \<times> nat) list \<times> (nat \<times> string) list)"
where
  "buildReadHeaderNameIndexCache headerLine tFieldsIndexes =
     (case header_loop headerLine 0 tFieldsIndexes [] [] of
        Inl err \<Rightarrow> Inl err
      | Inr (nameIndex, indexName) \<Rightarrow>
          (case tags_in_header tFieldsIndexes nameIndex of
             Some err \<Rightarrow> Inl err
           | None \<Rightarrow> Inr (nameIndex, indexName)))"

subsection \<open>Field values\<close>

text \<open>
  A \<^verbatim>\<open>float64\<close> is its IEEE-754 bit pattern, a \<^verbatim>\<open>time.Time\<close> the three words of
  the Go struct. What \<^verbatim>\<open>strconv\<close> and \<^verbatim>\<open>time\<close> do with them is not code of this
  repository: those functions are the fields of a \<open>stdlib\<close> record that the converters
  take as a parameter.
\<close>

type_synonym float64 = "64 word"

record Time =
  wall :: nat
  ext :: int
  loc :: "string option"

datatype govalue =
    VInt int
  | VUint nat
  | VFloat float64
  | VString string
  | VBool bool
  | VTime Time
  | VNullString string bool
  | VNullInt64 int bool
  | VNullInt32 int bool
  | VNullInt16 int bool
  | VNullTime Time bool
  | VNullFloat64 float64 bool
  | VNullBool bool bool
  | VOther string

record stdlib =
  ParseFloat :: "string \<Rightarrow> go_error + float64"
  FormatFloat :: "float64 \<Rightarrow> string"
  overflowFloat32 :: "float64 \<Rightarrow> bool"
  float32 :: "float64 \<Rightarrow> float64"
  time_Parse :: "string \<Rightarrow> string \<Rightarrow> go_error + Time"
  time_Format :: "Time \<Rightarrow> string \<Rightarrow> string"

definition zero_Time :: Time where
  "zero_Time = \<lparr>wall = 0, ext = 0, loc = None\<rparr>"

text \<open>The zero value of a type: what the fields of \<^verbatim>\<open>new(T)\<close> hold.\<close>

definition zero_value :: "gotype \<Rightarrow> govalue" where
  "zero_value tp =
     (case tp of
        TInt64 \<Rightarrow> VInt 0 | TInt32 \<Rightarrow> VInt 0 | TInt16 \<Rightarrow> VInt 0 | TInt8 \<Rightarrow> VInt 0 | TInt \<Rightarrow> VInt 0
      | TUint64 \<Rightarrow> VUint 0 | TUint32 \<Rightarrow> VUint 0 | TUint16 \<Rightarrow> VUint 0 | TUint8 \<Rightarrow> VUint 0
      | TUint \<Rightarrow> VUint 0
      | TFloat64 \<Rightarrow> VFloat 0 | TFloat32 \<Rightarrow> VFloat 0
      | TString \<Rightarrow> VString []
      | TBool \<Rightarrow> VBool False
      | TTime \<Rightarrow> VTime zero_Time
      | TNullString \<Rightarrow> VNullString [] False
      | TNullInt64 \<Rightarrow> VNullInt64 0 False
      | TNullInt32 \<Rightarrow> VNullInt32 0 False
      | TNullInt16 \<Rightarrow> VNullInt16 0 False
      | TNullTime \<Rightarrow> VNullTime zero_Time False
      | TNullFloat64 \<Rightarrow> VNullFloat64 0 False
      | TNullBool \<Rightarrow> VNullBool False False
      | TOther n \<Rightarrow> VOther [])"

definition new :: "struct_type \<Rightarrow> govalue list" where
  "new T = map (\<lambda>f. zero_value (Type f)) T"

text \<open>Width of the integer kinds, for reflect's overflow tests (\<^verbatim>\<open>int\<close> is 64 bits wide).\<close>

definition int_bits :: "gotype \<Rightarrow> nat option" where
  "int_bits tp =
     (case tp of
        TInt64 \<Rightarrow> Some 64 | TInt \<Rightarrow> Some 64 | TInt32 \<Rightarrow> Some 32 | TInt16 \<Rightarrow> Some 16
      | TInt8 \<Rightarrow> Some 8 | _ \<Rightarrow> None)"

definition uint_bits :: "gotype \<Rightarrow> nat option" where
  "uint_bits tp =
     (case tp of
        TUint64 \<Rightarrow> Some 64 | TUint \<Rightarrow> Some 64 | TUint32 \<Rightarrow> Some 32 | TUint16 \<Rightarrow> Some 16
      | TUint8 \<Rightarrow> Some 8 | _ \<Rightarrow> None)"

text \<open>
  \<^verbatim>\<open>reflect.Value.OverflowInt\<close>, \<^verbatim>\<open>OverflowUint\<close> and \<^verbatim>\<open>OverflowFloat\<close> panic on a
  field of another kind.
\<close>

definition OverflowInt :: "gotype \<Rightarrow> int \<Rightarrow> panic + bool" where
  "OverflowInt tp x =
     (case int_bits tp of
        None \<Rightarrow> Inl (ReflectKind ''reflect.Value.OverflowInt'')
      | Some b \<Rightarrow> Inr (x < - (2 ^ (b - 1)) \<or> 2 ^ (b - 1) \<le> x))"

definition OverflowUint :: "gotype \<Rightarrow> nat \<Rightarrow> panic + bool" where
  "OverflowUint tp x =
     (case uint_bits tp of
        None \<Rightarrow> Inl (ReflectKind ''reflect.Value.OverflowUint'')
      | Some b \<Rightarrow> Inr (2 ^ b \<le> x))"

definition OverflowFloat :: "stdlib \<Rightarrow> gotype \<Rightarrow> float64 \<Rightarrow> panic + bool" where
  "OverflowFloat L tp x =
     (case tp of
        TFloat32 \<Rightarrow> Inr (overflowFloat32 L x)
      | TFloat64 \<Rightarrow> Inr False
      | _ \<Rightarrow> Inl (ReflectKind ''reflect.Value.OverflowFloat''))"

text \<open>\<^verbatim>\<open>SetFloat\<close> stores a \<^verbatim>\<open>float32\<close> field rounded to that precision.\<close>

definition SetFloat :: "stdlib \<Rightarrow> gotype \<Rightarrow> float64 \<Rightarrow> govalue" where
  "SetFloat L tp x = (if tp = TFloat32 then VFloat (float32 L x) else VFloat x)"

subsection \<open>strconv and strings on ASCII text\<close>

definition isDigit :: "char \<Rightarrow> bool" where
  "isDigit c = (48 \<le> (of_char c :: nat) \<and> (of_char c :: nat) \<le> 57)"

text \<open>
  The digit loop of \<^verbatim>\<open>strconv.ParseUint\<close> in base 10: a byte that is no digit is a
  syntax error, a value above \<open>maxVal\<close> a range error, whichever comes first.
\<close>

fun parse_digits :: "nat \<Rightarrow> nat \<Rightarrow> string \<Rightarrow> go_error + nat" where
  "parse_digits maxVal n [] = Inr n"
| "parse_digits maxVal n (c # cs) =
     (if \<not> isDigit c then Inl ErrSyntax
      else (let n1 = n * 10 + (of_char c - 48)
            in if n1 > maxVal then Inl ErrRange else parse_digits maxVal n1 cs))"

definition ParseUint :: "string \<Rightarrow> nat \<Rightarrow> go_error + nat" where
  "ParseUint s bitSize =
     (if s = [] then Inl ErrSyntax else parse_digits (2 ^ bitSize - 1) 0 s)"

definition ParseInt :: "string \<Rightarrow> nat \<Rightarrow> go_error + int" where
  "ParseInt s bitSize =
     (if s = [] then Inl ErrSyntax
      else (let neg = (hd s = CHR ''-'');
                s1 = (if hd s = CHR ''+'' \<or> hd s = CHR ''-'' then tl s else s)
            in case ParseUint s1 bitSize of
                 Inl err \<Rightarrow> Inl err
               | Inr un \<Rightarrow>
                   (let cutoff = 2 ^ (bitSize - 1)
                    in if \<not> neg \<and> un \<ge> cutoff then Inl ErrRange
                       else if neg \<and> un > cutoff then Inl ErrRange
                       else Inr (if neg then - int un else int un))))"

definition digit_char :: "nat \<Rightarrow> char" where
  "digit_char d = ''0123456789'' ! d"

fun FormatUint :: "nat \<Rightarrow> string" where
  "FormatUint n =
     (if n < 10 then [digit_char n]
      else FormatUint (n div 10) @ [digit_char (n mod 10)])"

declare FormatUint.simps [simp del]

definition FormatInt :: "int \<Rightarrow> string" where
  "FormatInt i = (if i < 0 then CHR ''-'' # FormatUint (nat (- i)) else FormatUint (nat i))"

definition FormatBool :: "bool \<Rightarrow> string" where
  "FormatBool b = (if b then ''true'' else ''false'')"

definition toLower :: "char \<Rightarrow> char" where
  "toLower c =
     (case map_of (zip ''ABCDEFGHIJKLMNOPQRSTUVWXYZ'' ''abcdefghijklmnopqrstuvwxyz'') c of
        Some l \<Rightarrow> l
      | None \<Rightarrow> c)"

definition strings_ToLower :: "string \<Rightarrow> string" where
  "strings_ToLower s = map toLower s"

definition is_true_text :: "string \<Rightarrow> bool" where
  "is_true_text cmp =
     (cmp = ''true'' \<or> cmp = ''1'' \<or> cmp = ''on'' \<or> cmp = ''yes'' \<or> cmp = ''y'')"

subsection \<open>Layouts of package time\<close>

definition DateTime :: string where "DateTime = ''2006-01-02 15:04:05''"
definition DateOnly :: string where "DateOnly = ''2006-01-02''"
definition RFC3339 :: string where "RFC3339 = ''2006-01-02T15:04:05Z07:00''"
definition RFC3339Nano :: string where "RFC3339Nano = ''2006-01-02T15:04:05.999999999Z07:00''"

text \<open>\<^verbatim>\<open>for _, format := range formats\<close>: the first layout that parses wins.\<close>

fun parse_formats :: "stdlib \<Rightarrow> string list \<Rightarrow> string \<Rightarrow> Time option" where
  "parse_formats L [] s = None"
| "parse_formats L (format # formats) s =
     (case time_Parse L format s of
        Inr val \<Rightarrow> Some val
      | Inl err \<Rightarrow> parse_formats L formats s)"

subsection \<open>Read converters (reader.go)\<close>

text \<open>
  A \<^verbatim>\<open>Conversion\<close> gets the cell text and the field (\<^verbatim>\<open>*reflect.Value\<close>: the field's
  type, whether it can be set, and its present value); it returns the field's new value,
  an error, or it panics.
\<close>

type_synonym Conversion = "string \<Rightarrow> gotype \<Rightarrow> bool \<Rightarrow> govalue \<Rightarrow> failure + govalue"

text \<open>
  Every setter of reflect starts with \<^verbatim>\<open>mustBeAssignable\<close>, which panics on a field that
  cannot be set; \<open>assign\<close> is a setter whose value is known to fit the field.
\<close>

definition assign :: "bool \<Rightarrow> string \<Rightarrow> govalue \<Rightarrow> failure + govalue" where
  "assign canSet method x =
     (if canSet then Inr x else Inl (Panic (ReflectUnexported method)))"

text \<open>\<^verbatim>\<open>field.Set(reflect.ValueOf(x))\<close> then panics unless \<open>x\<close> has the field's type.\<close>

definition Set_field :: "bool \<Rightarrow> gotype \<Rightarrow> gotype \<Rightarrow> govalue \<Rightarrow> failure + govalue" where
  "Set_field canSet tp xtype x =
     (if \<not> canSet then Inl (Panic (ReflectUnexported ''reflect.Set''))
      else if tp = xtype then Inr x else Inl (Panic (ReflectKind ''reflect.Set'')))"

text \<open>The closures shared by \<^verbatim>\<open>buildDefaultConverts\<close> and \<^verbatim>\<open>buildReadDefaultConverters\<close>.\<close>

definition sqlNullInt64Conversion :: Conversion where
  "sqlNullInt64Conversion a tp canSet field =
     (if a \<noteq> [] then
        (case ParseInt a 64 of
           Inl err \<Rightarrow> Inl (Error err)
         | Inr val \<Rightarrow> Set_field canSet tp TNullInt64 (VNullInt64 val True))
      else Inr field)"

definition sqlNullInt32Conversion :: Conversion where
  "sqlNullInt32Conversion a tp canSet field =
     (if a \<noteq> [] then
        (case ParseInt a 32 of
           Inl err \<Rightarrow> Inl (Error err)
         | Inr val \<Rightarrow> Set_field canSet tp TNullInt32 (VNullInt32 val True))
      else Inr field)"

definition sqlNullInt16Conversion :: Conversion where
  "sqlNullInt16Conversion a tp canSet field =
     (if a \<noteq> [] then
        (case ParseInt a 16 of
           Inl err \<Rightarrow> Inl (Error err)
         | Inr val \<Rightarrow> Set_field canSet tp TNullInt16 (VNullInt16 val True))
      else Inr field)"

definition stringConversion :: Conversion where
  "stringConversion s tp canSet field =
     (if \<not> canSet then Inl (Panic (ReflectUnexported ''reflect.Value.SetString''))
      else if tp = TString then Inr (VString s)
      else Inl (Panic (ReflectKind ''reflect.Value.SetString'')))"

definition sqlNullStringConversion :: Conversion where
  "sqlNullStringConversion a tp canSet field =
     (if a \<noteq> [] then Set_field canSet tp TNullString (VNullString a True) else Inr field)"

text \<open>The closures of \<^verbatim>\<open>buildDefaultConverts\<close>, the table \<^verbatim>\<open>NewFileReader\<close> installs.\<close>

definition dc_intConversion :: Conversion where
  "dc_intConversion s tp canSet field =
     (if s \<noteq> [] then
        (case ParseInt s 64 of
           Inl err \<Rightarrow> Inl (Error err)
         | Inr val \<Rightarrow>
             (case OverflowInt tp val of
                Inl p \<Rightarrow> Inl (Panic p)
              | Inr overflow \<Rightarrow>
                  if overflow then Inl (Error (ErrorString ''overflow convert''))
                  else assign canSet ''reflect.Value.SetInt'' (VInt val)))
      else Inr field)"

definition dc_uintConversion :: Conversion where
  "dc_uintConversion s tp canSet field =
     (if s \<noteq> [] then
        (case ParseUint s 64 of
           Inl err \<Rightarrow> Inl (Error err)
         | Inr val \<Rightarrow>
             (case OverflowUint tp val of
                Inl p \<Rightarrow> Inl (Panic p)
              | Inr overflow \<Rightarrow>
                  if overflow then Inl (Error ErrTypeOverflow)
                  else assign canSet ''reflect.Value.SetUint'' (VUint val)))
      else Inr field)"

definition dc_floatConversion :: "stdlib \<Rightarrow> Conversion" where
  "dc_floatConversion L s tp canSet field =
     (if s \<noteq> [] then
        (case ParseFloat L s of
           Inl err \<Rightarrow> Inl (Error err)
         | Inr val \<Rightarrow>
             (case OverflowFloat L tp val of
                Inl p \<Rightarrow> Inl (Panic p)
              | Inr overflow \<Rightarrow>
                  if overflow then Inl (Error ErrTypeOverflow)
                  else assign canSet ''reflect.Value.SetFloat'' (SetFloat L tp val)))
      else Inr field)"

definition dc_sqlNullFloat64Conversion :: "stdlib \<Rightarrow> Conversion" where
  "dc_sqlNullFloat64Conversion L s tp canSet field =
     (if s \<noteq> [] then
        (case ParseFloat L s of
           Inl err \<Rightarrow> Inl (Error err)
         | Inr val \<Rightarrow>
             (case OverflowFloat L tp val of
                Inl p \<Rightarrow> Inl (Panic p)
              | Inr overflow \<Rightarrow>
                  if overflow then Inl (Error ErrTypeOverflow)
                  else Set_field canSet tp TNullFloat64 (VNullFloat64 val True)))
      else Inr field)"

definition dc_formats :: "string list" where
  "dc_formats =
     [DateTime, DateOnly, RFC3339, RFC3339Nano, ''01/02/2006 15:04:05 AM'',
      ''1/2/2006 15:04:05 AM'']"

definition dc_timeConversion :: "stdlib \<Rightarrow> Conversion" where
  "dc_timeConversion L s tp canSet field =
     (if s \<noteq> [] then
        (case parse_formats L dc_formats s of
           Some val \<Rightarrow> Set_field canSet tp TTime (VTime val)
         | None \<Rightarrow> Inl (Error (ErrorString ''cannot convert string to time'')))
      else Inl (Error (ErrorString ''cannot convert string to time'')))"

definition dc_sqlNullTimeConversion :: "stdlib \<Rightarrow> Conversion" where
  "dc_sqlNullTimeConversion L s tp canSet field =
     (if s \<noteq> [] then
        (case parse_formats L dc_formats s of
           Some val \<Rightarrow> Set_field canSet tp TNullTime (VNullTime val True)
         | None \<Rightarrow> Inl (Error (ErrorString ''cannot convert string to time'')))
      else Inr field)"

definition buildDefaultConverts :: "stdlib \<Rightarrow> gotype \<Rightarrow> Conversion option" where
  "buildDefaultConverts L tp =
     (case tp of
        TInt64 \<Rightarrow> Some dc_intConversion
      | TInt32 \<Rightarrow> Some dc_intConversion
      | TInt16 \<Rightarrow> Some dc_intConversion
      | TInt \<Rightarrow> Some dc_intConversion
      | TUint64 \<Rightarrow> Some dc_uintConversion
      | TUint32 \<Rightarrow> Some dc_uintConversion
      | TUint16 \<Rightarrow> Some dc_uintConversion
      | TUint \<Rightarrow> Some dc_uintConversion
      | TString \<Rightarrow> Some stringConversion
      | TNullString \<Rightarrow> Some sqlNullStringConversion
      | TNullInt64 \<Rightarrow> Some sqlNullInt64Conversion
      | TNullInt32 \<Rightarrow> Some sqlNullInt32Conversion
      | TNullInt16 \<Rightarrow> Some sqlNullInt16Conversion
      | TNullTime \<Rightarrow> Some (dc_sqlNullTimeConversion L)
      | TTime \<Rightarrow> Some (dc_timeConversion L)
      | TFloat64 \<Rightarrow> Some (dc_floatConversion L)
      | TFloat32 \<Rightarrow> Some (dc_floatConversion L)
      | TNullFloat64 \<Rightarrow> Some (dc_sqlNullFloat64Conversion L)
      | _ \<Rightarrow> None)"

text \<open>The closures of \<^verbatim>\<open>buildReadDefaultConverters\<close>, the newer table of reader.go.\<close>

definition rdc_intConversion :: Conversion where
  "rdc_intConversion s tp canSet field =
     (if s \<noteq> [] then
        (case ParseInt s 64 of
           Inl err \<Rightarrow> Inl (Error err)
         | Inr val \<Rightarrow>
             (case OverflowInt tp val of
                Inl p \<Rightarrow> Inl (Panic p)
              | Inr overflow \<Rightarrow>
                  if overflow then Inl (Error (ErrorString ''overflow convert''))
                  else assign canSet ''reflect.Value.SetInt'' (VInt val)))
      else Inl (Error (ErrorString ''cannot convert empty string to int*'')))"

definition rdc_uintConversion :: Conversion where
  "rdc_uintConversion s tp canSet field =
     (if s \<noteq> [] then
        (case ParseUint s 64 of
           Inl err \<Rightarrow> Inl (Error err)
         | Inr val \<Rightarrow>
             (case OverflowUint tp val of
                Inl p \<Rightarrow> Inl (Panic p)
              | Inr overflow \<Rightarrow>
                  if overflow then Inl (Error ErrTypeOverflow)
                  else assign canSet ''reflect.Value.SetUint'' (VUint val)))
      else Inl (Error (ErrorString ''cannot convert empty string to uint*'')))"

definition rdc_floatConversion :: "stdlib \<Rightarrow> Conversion" where
  "rdc_floatConversion L s tp canSet field =
     (if s \<noteq> [] then
        (case ParseFloat L s of
           Inl err \<Rightarrow> Inl (Error err)
         | Inr val \<Rightarrow>
             (case OverflowFloat L tp val of
                Inl p \<Rightarrow> Inl (Panic p)
              | Inr overflow \<Rightarrow>
                  if overflow then Inl (Error ErrTypeOverflow)
                  else assign canSet ''reflect.Value.SetFloat'' (SetFloat L tp val)))
      else Inl (Error (ErrorString ''cannot convert empty string to float*'')))"

definition rdc_sqlNullFloat64Conversion :: "stdlib \<Rightarrow> Conversion" where
  "rdc_sqlNullFloat64Conversion L s tp canSet field =
     (if s \<noteq> [] then
        (case ParseFloat L s of
           Inl err \<Rightarrow> Inl (Error err)
         | Inr val \<Rightarrow> Set_field canSet tp TNullFloat64 (VNullFloat64 val True))
      else Inr field)"

definition rdc_formats :: "string list" where
  "rdc_formats =
     [DateTime, DateOnly, RFC3339, RFC3339Nano, ''01/02/2006 15:04:05 PM'',
      ''1/2/2006 15:04:05 PM'']"

definition rdc_timeConversion :: "stdlib \<Rightarrow> Conversion" where
  "rdc_timeConversion L s tp canSet field =
     (if s \<noteq> [] then
        (case parse_formats L rdc_formats s of
           Some val \<Rightarrow> Set_field canSet tp TTime (VTime val)
         | None \<Rightarrow> Inl (Error (ErrorString ''cannot convert string to time'')))
      else Inl (Error (ErrorString ''cannot convert empty string to time'')))"

definition rdc_boolConversion :: Conversion where
  "rdc_boolConversion a tp canSet field =
     (if a \<noteq> [] then
        (if \<not> canSet then Inl (Panic (ReflectUnexported ''reflect.Value.SetBool''))
         else if tp = TBool then Inr (VBool (is_true_text (strings_ToLower a)))
         else Inl (Panic (ReflectKind ''reflect.Value.SetBool'')))
      else Inl (Error (ErrorString ''cannot convert empty string to bool'')))"

definition rdc_sqlNullTimeConversion :: "stdlib \<Rightarrow> Conversion" where
  "rdc_sqlNullTimeConversion L s tp canSet field =
     (if s \<noteq> [] then
        (case parse_formats L rdc_formats s of
           Some val \<Rightarrow> Set_field canSet tp TNullTime (VNullTime val True)
         | None \<Rightarrow> Inl (Error (ErrorString ''cannot convert string to time'')))
      else Inr field)"

definition rdc_sqlNullBoolConversion :: Conversion where
  "rdc_sqlNullBoolConversion a tp canSet field =
     (if a \<noteq> [] then
        Set_field canSet tp TNullBool (VNullBool (is_true_text (strings_ToLower a)) True)
      else Inr field)"

definition buildReadDefaultConverters :: "stdlib \<Rightarrow> gotype \<Rightarrow> Conversion option" where
  "buildReadDefaultConverters L tp =
     (case tp of
        TInt64 \<Rightarrow> Some rdc_intConversion
      | TInt32 \<Rightarrow> Some rdc_intConversion
      | TInt16 \<Rightarrow> Some rdc_intConversion
      | TInt \<Rightarrow> Some rdc_intConversion
      | TUint64 \<Rightarrow> Some rdc_uintConversion
      | TUint32 \<Rightarrow> Some rdc_uintConversion
      | TUint16 \<Rightarrow> Some rdc_uintConversion
      | TUint \<Rightarrow> Some rdc_uintConversion
      | TString \<Rightarrow> Some stringConversion
      | TNullString \<Rightarrow> Some sqlNullStringConversion
      | TNullInt64 \<Rightarrow> Some sqlNullInt64Conversion
      | TNullInt32 \<Rightarrow> Some sqlNullInt32Conversion
      | TNullInt16 \<Rightarrow> Some sqlNullInt16Conversion
      | TNullTime \<Rightarrow> Some (rdc_sqlNullTimeConversion L)
      | TTime \<Rightarrow> Some (rdc_timeConversion L)
      | TFloat64 \<Rightarrow> Some (rdc_floatConversion L)
      | TFloat32 \<Rightarrow> Some (rdc_floatConversion L)
      | TNullFloat64 \<Rightarrow> Some (rdc_sqlNullFloat64Conversion L)
      | TNullBool \<Rightarrow> Some rdc_sqlNullBoolConversion
      | TBool \<Rightarrow> Some rdc_boolConversion
      | _ \<Rightarrow> None)"

subsection \<open>Write converters\<close>

text \<open>
  A \<^verbatim>\<open>ToStringConversion\<close> gets the field and returns the cell text. \<^verbatim>\<open>v.Int()\<close>,
  \<^verbatim>\<open>v.Uint()\<close>, \<^verbatim>\<open>v.Float()\<close> and \<^verbatim>\<open>v.Bool()\<close> panic on a value of another kind;
  \<^verbatim>\<open>v.String()\<close> does not, it prints the type's name instead; a failed type assertion
  \<^verbatim>\<open>v.Interface().(sql.NullString)\<close> is the closure's own error. The four getters read
  an unexported field too; \<^verbatim>\<open>v.Interface()\<close> panics on it. The closure gets the field's
  type, whether it can be handed out, and its value.
\<close>

type_synonym ToStringConversion = "gotype \<Rightarrow> bool \<Rightarrow> govalue \<Rightarrow> failure + string"

definition Interface :: "bool \<Rightarrow> failure + string \<Rightarrow> failure + string" where
  "Interface canInterface r =
     (if canInterface then r else Inl (Panic (ReflectUnexported ''reflect.Value.Interface'')))"

definition wdc_intConversion :: ToStringConversion where
  "wdc_intConversion tp canInterface v =
     (case v of
        VInt i \<Rightarrow> Inr (FormatInt i)
      | _ \<Rightarrow> Inl (Panic (ReflectKind ''reflect.Value.Int'')))"

definition wdc_uintConversion :: ToStringConversion where
  "wdc_uintConversion tp canInterface v =
     (case v of
        VUint n \<Rightarrow> Inr (FormatUint n)
      | _ \<Rightarrow> Inl (Panic (ReflectKind ''reflect.Value.Uint'')))"

definition wdc_floatConversion :: "stdlib \<Rightarrow> ToStringConversion" where
  "wdc_floatConversion L tp canInterface v =
     (case v of
        VFloat x \<Rightarrow> Inr (FormatFloat L x)
      | _ \<Rightarrow> Inl (Panic (ReflectKind ''reflect.Value.Float'')))"

definition wdc_stringConversion :: ToStringConversion where
  "wdc_stringConversion tp canInterface v =
     (case v of
        VString s \<Rightarrow> Inr s
      | _ \<Rightarrow> Inr ''<Value>'')"

definition wdc_boolConversion :: ToStringConversion where
  "wdc_boolConversion tp canInterface v =
     (case v of
        VBool b \<Rightarrow> Inr (FormatBool b)
      | _ \<Rightarrow> Inl (Panic (ReflectKind ''reflect.Value.Bool'')))"

definition wdc_sqlNullStringConversion :: ToStringConversion where
  "wdc_sqlNullStringConversion tp canInterface v =
     Interface canInterface
       (case v of
          VNullString s valid \<Rightarrow> if valid then Inr s else Inr []
        | _ \<Rightarrow> Inl (Error (ErrorString ''cannot convert to sql.NullString'')))"

definition wdc_sqlNullInt64Conversion :: ToStringConversion where
  "wdc_sqlNullInt64Conversion tp canInterface v =
     Interface canInterface
       (case v of
          VNullInt64 i valid \<Rightarrow> if valid then Inr (FormatInt i) else Inr []
        | _ \<Rightarrow> Inl (Error (ErrorString ''cannot convert to sql.NullInt64'')))"

definition wdc_sqlNullInt32Conversion :: ToStringConversion where
  "wdc_sqlNullInt32Conversion tp canInterface v =
     Interface canInterface
       (case v of
          VNullInt32 i valid \<Rightarrow> if valid then Inr (FormatInt i) else Inr []
        | _ \<Rightarrow> Inl (Error (ErrorString ''cannot convert to sql.NullInt32'')))"

definition wdc_sqlNullInt16Conversion :: ToStringConversion where
  "wdc_sqlNullInt16Conversion tp canInterface v =
     Interface canInterface
       (case v of
          VNullInt16 i valid \<Rightarrow> if valid then Inr (FormatInt i) else Inr []
        | _ \<Rightarrow> Inl (Error (ErrorString ''cannot convert to sql.NullInt16'')))"

definition wdc_sqlNullTimeConversion :: "stdlib \<Rightarrow> ToStringConversion" where
  "wdc_sqlNullTimeConversion L tp canInterface v =
     Interface canInterface
       (case v of
          VNullTime t valid \<Rightarrow> if valid then Inr (time_Format L t DateTime) else Inr []
        | _ \<Rightarrow> Inl (Error (ErrorString ''cannot convert to sql.NullTime'')))"

definition wdc_timeConversion :: "stdlib \<Rightarrow> ToStringConversion" where
  "wdc_timeConversion L tp canInterface v =
     Interface canInterface
       (case v of
          VTime tm \<Rightarrow> Inr (time_Format L tm DateTime)
        | _ \<Rightarrow> Inl (Error (ErrorString ''cannot convert to time.Time{}'')))"

definition wdc_sqlNullFloat64Conversion :: "stdlib \<Rightarrow> ToStringConversion" where
  "wdc_sqlNullFloat64Conversion L tp canInterface v =
     Interface canInterface
       (case v of
          VNullFloat64 x valid \<Rightarrow> if valid then Inr (FormatFloat L x) else Inr []
        | _ \<Rightarrow> Inl (Error (ErrorString ''cannot convert to sql.NullFloat64'')))"

definition wdc_sqlNullBoolConversion :: ToStringConversion where
  "wdc_sqlNullBoolConversion tp canInterface v =
     Interface canInterface
       (case v of
          VNullBool b valid \<Rightarrow> if valid then Inr (FormatBool b) else Inr []
        | _ \<Rightarrow> Inl (Error (ErrorString ''cannot convert to sql.NullBool'')))"

definition buildWriteDefaultConverters :: "stdlib \<Rightarrow> gotype \<Rightarrow> ToStringConversion option" where
  "buildWriteDefaultConverters L tp =
     (case tp of
        TInt64 \<Rightarrow> Some wdc_intConversion
      | TInt32 \<Rightarrow> Some wdc_intConversion
      | TInt16 \<Rightarrow> Some wdc_intConversion
      | TInt \<Rightarrow> Some wdc_intConversion
      | TUint64 \<Rightarrow> Some wdc_uintConversion
      | TUint32 \<Rightarrow> Some wdc_uintConversion
      | TUint16 \<Rightarrow> Some wdc_uintConversion
      | TUint \<Rightarrow> Some wdc_uintConversion
      | TString \<Rightarrow> Some wdc_stringConversion
      | TBool \<Rightarrow> Some wdc_boolConversion
      | TNullString \<Rightarrow> Some wdc_sqlNullStringConversion
      | TNullInt64 \<Rightarrow> Some wdc_sqlNullInt64Conversion
      | TNullInt32 \<Rightarrow> Some wdc_sqlNullInt32Conversion
      | TNullInt16 \<Rightarrow> Some wdc_sqlNullInt16Conversion
      | TNullTime \<Rightarrow> Some (wdc_sqlNullTimeConversion L)
      | TTime \<Rightarrow> Some (wdc_timeConversion L)
      | TFloat64 \<Rightarrow> Some (wdc_floatConversion L)
      | TFloat32 \<Rightarrow> Some (wdc_floatConversion L)
      | TNullFloat64 \<Rightarrow> Some (wdc_sqlNullFloat64Conversion L)
      | TNullBool \<Rightarrow> Some wdc_sqlNullBoolConversion
      | _ \<Rightarrow> None)"

subsection \<open>Write-side header binder\<close>

fun write_header_loop ::
  "string list \<Rightarrow> nat \<Rightarrow> (string \<times> nat) list \<Rightarrow> (string \<times> nat) list \<Rightarrow> (nat \<times> string) list
     \<Rightarrow> go_error + ((string \<times> nat) list \<times> (nat \<times> string) list)"
where
  "write_header_loop [] i tFieldsIndexes nameIndex indexName = Inr (nameIndex, indexName)"
| "write_header_loop (col # cols) i tFieldsIndexes nameIndex indexName =
     (if map_of nameIndex col \<noteq> None then Inl ErrDuplicateHeaderInCSV
      else if map_of tFieldsIndexes col \<noteq> None
        then write_header_loop cols (Suc i) tFieldsIndexes
               (AList.update col i nameIndex) (AList.update i col indexName)
        else Inl ErrStructTagNotInCSV)"

definition buildWriteHeaderNameIndexCache ::
  "string list \<Rightarrow> (string \<times> nat) list
     \<Rightarrow> go_error + ((string \<times> nat) list \<times> (nat \<times> string) list)"
where
  "buildWriteHeaderNameIndexCache headerLine tFieldsIndexes =
     write_header_loop headerLine 0 tFieldsIndexes [] []"

subsection \<open>FileReader (filereader.go)\<close>

text \<open>
  The fields \<^verbatim>\<open>FileReader\<close> and \<^verbatim>\<open>FileWriter\<close> have in common are one record, over
  the type of the converters; the writer extends it below. The reader's file and its
  \<^verbatim>\<open>csv.Reader\<close> are the caller's side of the model: what \<^verbatim>\<open>os.Open\<close> and
  \<^verbatim>\<open>cr.Read()\<close> return is an argument of \<open>NewFileReader\<close> and \<open>Read\<close>. What
  \<^verbatim>\<open>cr.Read()\<close> returns on given bytes is \<open>csv_Reader_Read\<close>, further down.
\<close>

record 'c Doc =
  reflectIndexes :: "(string \<times> nat) list"
  headerIndex :: "(string \<times> nat) list"
  indexHeader :: "(nat \<times> string) list"
  defaultConverters :: "gotype \<Rightarrow> 'c option"
  customConverters :: "(string \<times> 'c) list"

type_synonym FileReader = "Conversion Doc"

text \<open>
  \<open>opened\<close> is the outcome of \<^verbatim>\<open>os.Open(fp)\<close> and, when that succeeds, of the first
  \<^verbatim>\<open>cr.Read()\<close>, the header line.
\<close>

definition NewFileReader ::
  "struct_type \<Rightarrow> stdlib \<Rightarrow> go_error + (go_error + string list) \<Rightarrow> go_error + FileReader"
where
  "NewFileReader T L opened =
     (case buildReflectTagIndexCache_read T of
        Inl err \<Rightarrow> Inl err
      | Inr fieldIndexes \<Rightarrow>
          (case opened of
             Inl err \<Rightarrow> Inl err
           | Inr (Inl err) \<Rightarrow> Inl err
           | Inr (Inr headerLine) \<Rightarrow>
               (case buildHeaderNameIndexCache headerLine fieldIndexes of
                  Inl err \<Rightarrow> Inl err
                | Inr (nameIndex, indexName) \<Rightarrow>
                    Inr \<lparr>reflectIndexes = fieldIndexes,
                         headerIndex = nameIndex,
                         indexHeader = indexName,
                         defaultConverters = buildDefaultConverts L,
                         customConverters = []\<rparr>)))"

text \<open>
  A Go map read at a key it does not hold gives the zero value, and
  \<^verbatim>\<open>elemVal.Field(i)\<close> panics when the struct has no field \<open>i\<close>.
\<close>

definition index_or_zero :: "('k \<times> nat) list \<Rightarrow> 'k \<Rightarrow> nat" where
  "index_or_zero m k = (case map_of m k of None \<Rightarrow> 0 | Some i \<Rightarrow> i)"

text \<open>The loop \<^verbatim>\<open>for i, v := range line\<close> of \<^verbatim>\<open>Read\<close>, over the record \<open>t\<close> built so far.\<close>

fun read_cells ::
  "FileReader \<Rightarrow> struct_type \<Rightarrow> (nat \<times> string) list \<Rightarrow> govalue list \<Rightarrow> failure + govalue list"
where
  "read_cells fr T [] t = Inr t"
| "read_cells fr T ((i, v) # rest) t =
     (case map_of (indexHeader fr) i of
        None \<Rightarrow> read_cells fr T rest t
      | Some hrName \<Rightarrow>
          (let tagFieldIndex = index_or_zero (reflectIndexes fr) hrName
           in if tagFieldIndex \<ge> length t \<or> tagFieldIndex \<ge> length T
              then Inl (Panic (ReflectKind ''reflect.Value.Field''))
              else
                (let f = t ! tagFieldIndex;
                     tp = Type (T ! tagFieldIndex);
                     canSet = IsExported (T ! tagFieldIndex)
                 in case map_of (customConverters fr) hrName of
                      Some cv \<Rightarrow>
                        (case cv v tp canSet f of
                           Inl err \<Rightarrow> Inl err
                         | Inr f' \<Rightarrow> read_cells fr T rest (t[tagFieldIndex := f']))
                    | None \<Rightarrow>
                        (case defaultConverters fr tp of
                           Some cv \<Rightarrow>
                             (case cv v tp canSet f of
                                Inl err \<Rightarrow> Inl err
                              | Inr f' \<Rightarrow> read_cells fr T rest (t[tagFieldIndex := f']))
                         | None \<Rightarrow> Inl (Error ErrConverterNotFoundForType)))))"

text \<open>\<open>next_line\<close> is what \<^verbatim>\<open>fr.cr.Read()\<close> returns for this call.\<close>

definition Read ::
  "FileReader \<Rightarrow> struct_type \<Rightarrow> go_error + string list \<Rightarrow> failure + govalue list"
where
  "Read fr T next_line =
     (case next_line of
        Inl err \<Rightarrow> Inl (Error err)
      | Inr line \<Rightarrow> read_cells fr T (zip [0..<length line] line) (new T))"

definition AddConvertor :: "FileReader \<Rightarrow> string \<Rightarrow> Conversion \<Rightarrow> go_error option \<times> FileReader" where
  "AddConvertor fr header handler =
     (if map_of (headerIndex fr) header = None then (Some ErrNotFoundHeaderInCSV, fr)
      else (None, fr\<lparr>customConverters := AList.update header handler (customConverters fr)\<rparr>))"

definition RemoveConvertor :: "FileReader \<Rightarrow> string \<Rightarrow> go_error option \<times> FileReader" where
  "RemoveConvertor fr header =
     (None, fr\<lparr>customConverters := AList.delete header (customConverters fr)\<rparr>)"

subsection \<open>The text of a csv record (encoding/csv, Writer)\<close>

abbreviation LF :: char where "LF \<equiv> CHR 0x0A"
abbreviation CR :: char where "CR \<equiv> CHR 0x0D"
abbreviation DQ :: char where "DQ \<equiv> CHR 0x22"

text \<open>
  \<^verbatim>\<open>WriteRune\<close> puts out the UTF-8 encoding of the delimiter; a rune that is not valid is
  encoded as U+FFFD.
\<close>

definition utf8_EncodeRune :: "nat \<Rightarrow> string" where
  "utf8_EncodeRune r =
     (if r < 128 then [char_of r]
      else if r < 2048 then [char_of (192 + r div 64), char_of (128 + r mod 64)]
      else if r > 1114111 \<or> (55296 \<le> r \<and> r \<le> 57343) then [CHR 0xEF, CHR 0xBF, CHR 0xBD]
      else if r < 65536
        then [char_of (224 + r div 4096), char_of (128 + r div 64 mod 64), char_of (128 + r mod 64)]
      else [char_of (240 + r div 262144), char_of (128 + r div 4096 mod 64),
            char_of (128 + r div 64 mod 64), char_of (128 + r mod 64)])"

fun has_prefix :: "string \<Rightarrow> string \<Rightarrow> bool" where
  "has_prefix s [] = True"
| "has_prefix [] (p # ps) = False"
| "has_prefix (c # cs) (p # ps) = (c = p \<and> has_prefix cs ps)"

fun strings_Contains :: "string \<Rightarrow> string \<Rightarrow> bool" where
  "strings_Contains [] sub = (sub = [])"
| "strings_Contains (c # cs) sub = (has_prefix (c # cs) sub \<or> strings_Contains cs sub)"

text \<open>
  The encodings of the runes for which \<^verbatim>\<open>unicode.IsSpace\<close> holds: tab to carriage return,
  space, U+0085, U+00A0, U+1680, U+2000 to U+200A, U+2028, U+2029, U+202F, U+205F, U+3000.
\<close>

definition space_prefixes :: "string list" where
  "space_prefixes =
     [[CHR 0x09], [CHR 0x0A], [CHR 0x0B], [CHR 0x0C], [CHR 0x0D], [CHR 0x20],
      [CHR 0xC2, CHR 0x85], [CHR 0xC2, CHR 0xA0], [CHR 0xE1, CHR 0x9A, CHR 0x80],
      [CHR 0xE2, CHR 0x80, CHR 0x80], [CHR 0xE2, CHR 0x80, CHR 0x81],
      [CHR 0xE2, CHR 0x80, CHR 0x82], [CHR 0xE2, CHR 0x80, CHR 0x83],
      [CHR 0xE2, CHR 0x80, CHR 0x84], [CHR 0xE2, CHR 0x80, CHR 0x85],
      [CHR 0xE2, CHR 0x80, CHR 0x86], [CHR 0xE2, CHR 0x80, CHR 0x87],
      [CHR 0xE2, CHR 0x80, CHR 0x88], [CHR 0xE2, CHR 0x80, CHR 0x89],
      [CHR 0xE2, CHR 0x80, CHR 0x8A], [CHR 0xE2, CHR 0x80, CHR 0xA8],
      [CHR 0xE2, CHR 0x80, CHR 0xA9], [CHR 0xE2, CHR 0x80, CHR 0xAF],
      [CHR 0xE2, CHR 0x81, CHR 0x9F], [CHR 0xE3, CHR 0x80, CHR 0x80]]"

text \<open>\<^verbatim>\<open>unicode.IsSpace\<close> of the first rune of the field.\<close>

definition starts_with_space :: "string \<Rightarrow> bool" where
  "starts_with_space s = list_ex (has_prefix s) space_prefixes"

text \<open>
  \<^verbatim>\<open>fieldNeedsQuotes\<close>: never the empty field, always the field \<^verbatim>\<open>\.\<close>, and otherwise a
  field that holds the delimiter, a quote, a carriage return or a line feed, or that
  starts with a space.
\<close>

definition fieldNeedsQuotes :: "nat \<Rightarrow> string \<Rightarrow> bool" where
  "fieldNeedsQuotes comma field =
     (if field = [] then False
      else if field = [CHR 0x5C, CHR ''.''] then True
      else if comma < 128 \<and>
              list_ex (\<lambda>c. c = LF \<or> c = CR \<or> c = DQ \<or> c = char_of comma) field then True
      else if 128 \<le> comma \<and>
              (strings_Contains field (utf8_EncodeRune comma) \<or>
               list_ex (\<lambda>c. c = DQ \<or> c = CR \<or> c = LF) field) then True
      else starts_with_space field)"

text \<open>
  Inside the quotes a quote is doubled; with \<^verbatim>\<open>UseCRLF\<close> a carriage return is left out
  and a line feed is written as carriage return and line feed.
\<close>

fun quoted_text :: "bool \<Rightarrow> string \<Rightarrow> string" where
  "quoted_text crlf [] = []"
| "quoted_text crlf (c # cs) =
     (if c = DQ then [DQ, DQ]
      else if c = CR then (if crlf then [] else [CR])
      else if c = LF then (if crlf then [CR, LF] else [LF])
      else [c]) @ quoted_text crlf cs"

definition csv_field :: "nat \<Rightarrow> bool \<Rightarrow> string \<Rightarrow> string" where
  "csv_field comma crlf field =
     (if fieldNeedsQuotes comma field then DQ # quoted_text crlf field @ [DQ] else field)"

fun csv_fields :: "nat \<Rightarrow> bool \<Rightarrow> string list \<Rightarrow> string" where
  "csv_fields comma crlf [] = []"
| "csv_fields comma crlf [field] = csv_field comma crlf field"
| "csv_fields comma crlf (field # rest) =
     csv_field comma crlf field @ utf8_EncodeRune comma @ csv_fields comma crlf rest"

text \<open>The bytes \<^verbatim>\<open>csv.Writer.Write\<close> puts out for one record, and for a list of records.\<close>

definition csv_record :: "nat \<Rightarrow> bool \<Rightarrow> string list \<Rightarrow> string" where
  "csv_record comma crlf rec = csv_fields comma crlf rec @ (if crlf then [CR, LF] else [LF])"

definition csv_bytes :: "nat \<Rightarrow> bool \<Rightarrow> string list list \<Rightarrow> string" where
  "csv_bytes comma crlf rows = concat (map (csv_record comma crlf) rows)"

subsection \<open>Files and the csv writer\<close>

text \<open>
  The host as the writer sees it. A file holds bytes. The host decides which calls fail:
  \<open>open_error\<close>, \<open>write_error\<close> and \<open>close_error\<close> give the error of a call that fails; a
  write that fails leaves the file as it was.
\<close>

record File =
  fd :: nat
  name :: string

record os_state =
  files :: "(string \<times> string) list"
  open_fds :: "nat list"
  next_fd :: nat
  open_error :: "string \<Rightarrow> go_error option"
  write_error :: "nat \<Rightarrow> go_error option"
  close_error :: "nat \<Rightarrow> go_error option"

text \<open>\<^verbatim>\<open>os.OpenFile(fp, os.O_WRONLY|os.O_CREATE|os.O_TRUNC, 0o666)\<close>.\<close>

definition os_OpenFile :: "os_state \<Rightarrow> string \<Rightarrow> (go_error + File) \<times> os_state" where
  "os_OpenFile os fp =
     (case open_error os fp of
        Some err \<Rightarrow> (Inl err, os)
      | None \<Rightarrow>
          (Inr \<lparr>fd = next_fd os, name = fp\<rparr>,
           os\<lparr>files := AList.update fp [] (files os),
              open_fds := next_fd os # open_fds os,
              next_fd := Suc (next_fd os)\<rparr>))"

definition File_Close :: "os_state \<Rightarrow> File \<Rightarrow> go_error option \<times> os_state" where
  "File_Close os f =
     (if fd f \<notin> set (open_fds os) then (Some ErrClosed, os)
      else (close_error os (fd f), os\<lparr>open_fds := removeAll (fd f) (open_fds os)\<rparr>))"

text \<open>
  \<^verbatim>\<open>csv.Writer\<close>: the records wait in its buffer until \<^verbatim>\<open>Flush\<close>, which writes their
  bytes to the file. \<^verbatim>\<open>Flush\<close> returns nothing; a failed write of the buffer is kept in
  the writer, for \<^verbatim>\<open>Error()\<close> to report. The buffer here has no bound. The one of
  \<^verbatim>\<open>bufio\<close> holds 4096 bytes and is written out whenever it is full, so that with more
  text waiting a write that fails is reported by \<^verbatim>\<open>Write\<close> already; what the file holds
  after a \<^verbatim>\<open>Flush\<close> on a host that fails no write is the same.
\<close>

record csvWriter =
  Comma :: nat
  UseCRLF :: bool
  buffered :: "string list list"
  werr :: "go_error option"

definition csv_NewWriter :: csvWriter where
  "csv_NewWriter = \<lparr>Comma = 44, UseCRLF = False, buffered = [], werr = None\<rparr>"

definition validDelim :: "nat \<Rightarrow> bool" where
  "validDelim r = (r \<noteq> 0 \<and> r \<noteq> 34 \<and> r \<noteq> 13 \<and> r \<noteq> 10 \<and> r \<noteq> 65533
                   \<and> r \<le> 1114111 \<and> \<not> (55296 \<le> r \<and> r \<le> 57343))"

definition csv_Write :: "csvWriter \<Rightarrow> string list \<Rightarrow> go_error option \<times> csvWriter" where
  "csv_Write cw row =
     (if \<not> validDelim (Comma cw) then (Some ErrInvalidDelim, cw)
      else (werr cw, cw\<lparr>buffered := buffered cw @ [row]\<rparr>))"

definition file_bytes :: "os_state \<Rightarrow> string \<Rightarrow> string" where
  "file_bytes os fp = (case map_of (files os) fp of None \<Rightarrow> [] | Some bytes \<Rightarrow> bytes)"

definition csv_Flush :: "os_state \<Rightarrow> File \<Rightarrow> csvWriter \<Rightarrow> os_state \<times> csvWriter" where
  "csv_Flush os f cw =
     (if werr cw \<noteq> None then (os, cw)
      else if buffered cw = [] then (os, cw)
      else if fd f \<notin> set (open_fds os) then (os, cw\<lparr>werr := Some ErrClosed\<rparr>)
      else (case write_error os (fd f) of
              Some err \<Rightarrow> (os, cw\<lparr>werr := Some err\<rparr>)
            | None \<Rightarrow>
                (os\<lparr>files :=
                      AList.update (name f)
                        (file_bytes os (name f) @ csv_bytes (Comma cw) (UseCRLF cw) (buffered cw))
                        (files os)\<rparr>,
                 cw\<lparr>buffered := []\<rparr>)))"

definition csv_Error :: "csvWriter \<Rightarrow> go_error option" where
  "csv_Error cw = werr cw"

subsection \<open>Reading csv records (encoding/csv, Reader)\<close>

text \<open>
  The reader takes its input line by line. \<^verbatim>\<open>readLine\<close> turns a carriage return and line
  feed at the end of a line into a line feed, and leaves out a carriage return at the end
  of the input; \<open>normalize_lines\<close> is the input as these lines.
\<close>

fun normalize_lines :: "string \<Rightarrow> string" where
  "normalize_lines [] = []"
| "normalize_lines [c] = (if c = CR then [] else [c])"
| "normalize_lines (c # d # cs) =
     (if c = CR \<and> d = LF then LF # normalize_lines cs else c # normalize_lines (d # cs))"

text \<open>What is left of the input after the line that \<open>s\<close> starts in.\<close>

definition rest_of_line :: "string \<Rightarrow> string" where
  "rest_of_line s = drop 1 (dropWhile (\<lambda>c. c \<noteq> LF) s)"

text \<open>
  The loop \<^verbatim>\<open>parseField\<close> of \<^verbatim>\<open>readRecord\<close>, with \<^verbatim>\<open>Comma\<close> the comma that
  \<^verbatim>\<open>csv.NewReader\<close> sets and neither \<^verbatim>\<open>LazyQuotes\<close> nor \<^verbatim>\<open>TrimLeadingSpace\<close>: at the start
  of a field, inside a field without quotes (it ends at the comma or at the end of the
  line; a quote in it is an error), and inside a quoted field (it ends at a quote that is
  followed by a comma or by the end of the line, and may go on over several lines). The
  result is the error, the fields read, and the input after the last line read.
\<close>

fun parse_field :: "string \<Rightarrow> string list \<Rightarrow> go_error option \<times> string list \<times> string"
and unquoted_field ::
  "string \<Rightarrow> string \<Rightarrow> string list \<Rightarrow> go_error option \<times> string list \<times> string"
and quoted_field ::
  "string \<Rightarrow> string \<Rightarrow> string list \<Rightarrow> go_error option \<times> string list \<times> string"
where
  "parse_field [] dst = (None, dst @ [[]], [])"
| "parse_field (c # cs) dst =
     (if c = DQ then quoted_field cs [] dst else unquoted_field (c # cs) [] dst)"
| "unquoted_field [] field dst = (None, dst @ [field], [])"
| "unquoted_field (c # cs) field dst =
     (if c = CHR '','' then parse_field cs (dst @ [field])
      else if c = LF then (None, dst @ [field], cs)
      else if c = DQ then (Some ErrBareQuote, dst, rest_of_line cs)
      else unquoted_field cs (field @ [c]) dst)"
| "quoted_field [] field dst = (Some ErrQuote, dst, [])"
| "quoted_field (c # cs) field dst =
     (if c = DQ then
        (case cs of
           [] \<Rightarrow> (None, dst @ [field], [])
         | d # ds \<Rightarrow>
             if d = DQ then quoted_field ds (field @ [DQ]) dst
             else if d = CHR '','' then parse_field ds (dst @ [field])
             else if d = LF then (None, dst @ [field], ds)
             else (Some ErrQuote, dst, rest_of_line ds))
      else quoted_field cs (field @ [c]) dst)"

text \<open>
  \<^verbatim>\<open>csv.Reader\<close> over the bytes of a file: the input not yet read, and
  \<^verbatim>\<open>FieldsPerRecord\<close>, which is 0 until the first record sets it.
\<close>

record csvReader =
  pending :: string
  FieldsPerRecord :: nat

definition csv_NewReader :: "string \<Rightarrow> csvReader" where
  "csv_NewReader bytes = \<lparr>pending = normalize_lines bytes, FieldsPerRecord = 0\<rparr>"

text \<open>
  \<^verbatim>\<open>Read\<close>: empty lines before the record are passed over; a record whose number of
  fields is not that of the first record is an error.
\<close>

definition csv_Reader_Read :: "csvReader \<Rightarrow> (go_error + string list) \<times> csvReader" where
  "csv_Reader_Read r =
     (let line = dropWhile (\<lambda>c. c = LF) (pending r)
      in if line = [] then (Inl EOF, r\<lparr>pending := []\<rparr>)
         else
           (case parse_field line [] of
              (err, dst, rest) \<Rightarrow>
                (let r1 = r\<lparr>pending := rest,
                              FieldsPerRecord :=
                                (if FieldsPerRecord r = 0 then length dst else FieldsPerRecord r)\<rparr>
                 in case err of
                      Some e \<Rightarrow> (Inl e, r1)
                    | None \<Rightarrow>
                        if FieldsPerRecord r > 0 \<and> length dst \<noteq> FieldsPerRecord r
                        then (Inl ErrFieldCount, r1)
                        else (Inr dst, r1))))"

subsection \<open>Writer options (options.go)\<close>

record WriterOption =
  crlfEnable :: bool
  escapeRune :: nat
  outputHeader :: "string list option"
  writeHeader :: bool

definition DefaultWriterOption :: WriterOption where
  "DefaultWriterOption =
     \<lparr>crlfEnable = False, escapeRune = 44, outputHeader = None, writeHeader = True\<rparr>"

definition WithEscapeRune :: "nat \<Rightarrow> WriterOption \<Rightarrow> WriterOption" where
  "WithEscapeRune r x = x\<lparr>escapeRune := r\<rparr>"

definition WithUseCRLF :: "bool \<Rightarrow> WriterOption \<Rightarrow> WriterOption" where
  "WithUseCRLF b x = x\<lparr>crlfEnable := b\<rparr>"

text \<open>The argument is \<open>None\<close> for a nil slice; the copy stored is never nil.\<close>

definition WithFormatHeaders :: "string list option \<Rightarrow> WriterOption \<Rightarrow> WriterOption" where
  "WithFormatHeaders hdr x =
     x\<lparr>outputHeader := Some (case hdr of None \<Rightarrow> [] | Some h \<Rightarrow> h)\<rparr>"

definition WithWriteHeader :: "bool \<Rightarrow> WriterOption \<Rightarrow> WriterOption" where
  "WithWriteHeader enable x = x\<lparr>writeHeader := enable\<rparr>"

text \<open>\<^verbatim>\<open>for _, opt := range opts { if opt != nil { opt(writer.opts) } }\<close>\<close>

fun apply_opts :: "(WriterOption \<Rightarrow> WriterOption) option list \<Rightarrow> WriterOption \<Rightarrow> WriterOption" where
  "apply_opts [] x = x"
| "apply_opts (None # opts) x = apply_opts opts x"
| "apply_opts (Some opt # opts) x = apply_opts opts (opt x)"

subsection \<open>FileWriter\<close>

record FileWriter = "ToStringConversion Doc" +
  opts :: WriterOption
  f :: File
  cw :: csvWriter
  fp :: string
  hasWrittenHeaderMux :: bool
  hasWrittenHeaders :: bool

text \<open>A nil slice has length 0 and no elements.\<close>

definition slice :: "'a list option \<Rightarrow> 'a list" where
  "slice s = (case s of None \<Rightarrow> [] | Some xs \<Rightarrow> xs)"

text \<open>
  The default output order of \<^verbatim>\<open>NewFileWriter\<close>:
  \<^verbatim>\<open>for i, v := range reflectIndexes { outputHeader[v] = i }\<close>, an assignment into a
  slice that panics when the index is not below its length.
\<close>

fun default_header_loop :: "(string \<times> nat) list \<Rightarrow> string list \<Rightarrow> panic + string list" where
  "default_header_loop [] hdr = Inr hdr"
| "default_header_loop ((i, v) # rest) hdr =
     (if v \<ge> length hdr then Inl IndexOutOfRange
      else default_header_loop rest (hdr[v := i]))"

definition default_header :: "(string \<times> nat) list \<Rightarrow> panic + string list" where
  "default_header ri = default_header_loop ri (replicate (length ri) [])"

text \<open>\<^verbatim>\<open>NewFileWriter\<close> as in the newer file, with options.\<close>

definition NewFileWriter ::
  "os_state \<Rightarrow> struct_type \<Rightarrow> stdlib \<Rightarrow> string \<Rightarrow> (WriterOption \<Rightarrow> WriterOption) option list
     \<Rightarrow> (failure + FileWriter) \<times> os_state"
where
  "NewFileWriter os T L path options =
     (case os_OpenFile os path of
        (Inl err, os1) \<Rightarrow> (Inl (Error err), os1)
      | (Inr file, os1) \<Rightarrow>
          (let o1 = apply_opts options DefaultWriterOption;
               csvWriter = csv_NewWriter\<lparr>Comma := escapeRune o1, UseCRLF := crlfEnable o1\<rparr>
           in case buildReflectTagIndexCache T True of
                Inl err \<Rightarrow> (Inl (Error err), os1)
              | Inr ri \<Rightarrow>
                  if outputHeader o1 \<noteq> None \<and> length (slice (outputHeader o1)) > length ri
                  then (Inl (Error ErrToFewStructTags), os1)
                  else
                    (case (if outputHeader o1 = None then default_header ri
                           else Inr (slice (outputHeader o1))) of
                       Inl p \<Rightarrow> (Inl (Panic p), os1)
                     | Inr hdr \<Rightarrow>
                         (case buildWriteHeaderNameIndexCache hdr ri of
                            Inl err \<Rightarrow>
                              (let (cerr, os2) = File_Close os1 file
                               in (Inl (Error err), os2))
                          | Inr (nameIndex, indexName) \<Rightarrow>
                              (Inr \<lparr>reflectIndexes = ri,
                                    headerIndex = nameIndex,
                                    indexHeader = indexName,
                                    defaultConverters = buildWriteDefaultConverters L,
                                    customConverters = [],
                                    opts = o1\<lparr>outputHeader := Some hdr\<rparr>,
                                    f = file,
                                    cw = csvWriter,
                                    fp = path,
                                    hasWrittenHeaderMux = False,
                                    hasWrittenHeaders = False\<rparr>,
                               os1)))))"

text \<open>
  \<^verbatim>\<open>NewFileWriter\<close> as in filewriter.go, where the order is the argument \<^verbatim>\<open>sort\<close> and
  the struct keeps it in \<^verbatim>\<open>headers\<close>; here that field is \<open>outputHeader\<close> of default
  options.
\<close>

definition NewFileWriter_sort ::
  "os_state \<Rightarrow> struct_type \<Rightarrow> stdlib \<Rightarrow> string \<Rightarrow> string list option
     \<Rightarrow> (failure + FileWriter) \<times> os_state"
where
  "NewFileWriter_sort os T L path sort' =
     (case os_OpenFile os path of
        (Inl err, os1) \<Rightarrow> (Inl (Error err), os1)
      | (Inr file, os1) \<Rightarrow>
          (case buildReflectTagIndexCache T True of
             Inl err \<Rightarrow> (Inl (Error err), os1)
           | Inr ri \<Rightarrow>
               if sort' \<noteq> None \<and> length (slice sort') > length ri
               then (Inl (Error ErrToFewStructTags), os1)
               else
                 (case (if sort' = None then default_header ri else Inr (slice sort')) of
                    Inl p \<Rightarrow> (Inl (Panic p), os1)
                  | Inr hdr \<Rightarrow>
                      (case buildWriteHeaderNameIndexCache hdr ri of
                         Inl err \<Rightarrow>
                           (let (cerr, os2) = File_Close os1 file
                            in (Inl (Error err), os2))
                       | Inr (nameIndex, indexName) \<Rightarrow>
                           (Inr \<lparr>reflectIndexes = ri,
                                 headerIndex = nameIndex,
                                 indexHeader = indexName,
                                 defaultConverters = buildWriteDefaultConverters L,
                                 customConverters = [],
                                 opts = DefaultWriterOption\<lparr>outputHeader := Some hdr\<rparr>,
                                 f = file,
                                 cw = csv_NewWriter,
                                 fp = path,
                                 hasWrittenHeaderMux = False,
                                 hasWrittenHeaders = False\<rparr>,
                            os1)))))"

text \<open>
  The loop \<^verbatim>\<open>for fieldName, fieldIndex := range doc.reflectIndexes\<close> of \<^verbatim>\<open>Write\<close>.
  Calling the converter a map lookup did not find is a call of a nil function.
\<close>

fun write_fields ::
  "FileWriter \<Rightarrow> struct_type \<Rightarrow> govalue list \<Rightarrow> (string \<times> nat) list \<Rightarrow> string list
     \<Rightarrow> failure + string list"
where
  "write_fields doc T tm [] row = Inr row"
| "write_fields doc T tm ((fieldName, fieldIndex) # rest) row =
     (case map_of (headerIndex doc) fieldName of
        None \<Rightarrow> write_fields doc T tm rest row
      | Some outIndex \<Rightarrow>
          if fieldIndex \<ge> length tm \<or> fieldIndex \<ge> length T
          then Inl (Panic (ReflectKind ''reflect.Value.Field''))
          else
            (let fld = tm ! fieldIndex;
                 tp = Type (T ! fieldIndex);
                 canInterface = IsExported (T ! fieldIndex);
                 converted =
                   (case map_of (customConverters doc) fieldName of
                      Some fnc \<Rightarrow> fnc tp canInterface fld
                    | None \<Rightarrow>
                        (case defaultConverters doc tp of
                           None \<Rightarrow> Inl (Panic NilFuncCall)
                         | Some fnc \<Rightarrow> fnc tp canInterface fld))
             in case converted of
                  Inl err \<Rightarrow> Inl err
                | Inr columnString \<Rightarrow>
                    if outIndex \<ge> length row then Inl (Panic IndexOutOfRange)
                    else write_fields doc T tm rest (row[outIndex := columnString])))"

text \<open>
  \<^verbatim>\<open>Write\<close>: the header once, then the row. The result is the call's failure, if any,
  and the writer afterwards. \<open>hasWrittenHeaderMux\<close> holds while the mutex is locked: the
  call locks it and unlocks it after the header, but a header write that fails returns
  before the unlock, and the next call waits for the lock.
\<close>

definition Write :: "FileWriter \<Rightarrow> struct_type \<Rightarrow> govalue list \<Rightarrow> failure option \<times> FileWriter" where
  "Write doc T tm =
     (if hasWrittenHeaderMux doc then (Some Deadlock, doc)
      else
        (let (herr, doc1) =
               (if \<not> hasWrittenHeaders doc \<and> writeHeader (opts doc)
                then (case csv_Write (cw doc) (slice (outputHeader (opts doc))) of
                        (Some err, cw1) \<Rightarrow> (Some err, doc\<lparr>cw := cw1, hasWrittenHeaderMux := True\<rparr>)
                      | (None, cw1) \<Rightarrow> (None, doc\<lparr>cw := cw1, hasWrittenHeaders := True\<rparr>))
                else (None, doc))
         in case herr of
              Some err \<Rightarrow> (Some (Error err), doc1)
            | None \<Rightarrow>
                (case write_fields doc1 T tm (reflectIndexes doc1)
                        (replicate (length (slice (outputHeader (opts doc1)))) []) of
                   Inl err \<Rightarrow> (Some err, doc1)
                 | Inr row \<Rightarrow>
                     (case csv_Write (cw doc1) row of
                        (Some err, cw2) \<Rightarrow> (Some (Error err), doc1\<lparr>cw := cw2\<rparr>)
                      | (None, cw2) \<Rightarrow> (None, doc1\<lparr>cw := cw2\<rparr>)))))"

text \<open>\<^verbatim>\<open>Close\<close>: \<^verbatim>\<open>doc.cw.Flush()\<close>, then \<^verbatim>\<open>return doc.f.Close()\<close>.\<close>

definition Close :: "FileWriter \<Rightarrow> os_state \<Rightarrow> go_error option \<times> FileWriter \<times> os_state" where
  "Close doc os =
     (let (os1, cw1) = csv_Flush os (f doc) (cw doc);
          (err, os2) = File_Close os1 (f doc)
      in (err, doc\<lparr>cw := cw1\<rparr>, os2))"

definition AddConverter ::
  "FileWriter \<Rightarrow> string \<Rightarrow> ToStringConversion \<Rightarrow> go_error option \<times> FileWriter"
where
  "AddConverter doc header handler =
     (None, doc\<lparr>customConverters := AList.update header handler (customConverters doc)\<rparr>)"

definition RemoveConverter :: "FileWriter \<Rightarrow> string \<Rightarrow> go_error option \<times> FileWriter" where
  "RemoveConverter doc header =
     (None, doc\<lparr>customConverters := AList.delete header (customConverters doc)\<rparr>)"

subsection \<open>Hosts, record types and a library for worked examples\<close>

text \<open>A host on which no call fails, with no files yet and no open descriptor.\<close>

definition quiet_host :: os_state where
  "quiet_host =
     \<lparr>files = [], open_fds = [], next_fd = 3, open_error = (\<lambda>p. None),
      write_error = (\<lambda>d. None), close_error = (\<lambda>d. None)\<rparr>"

text \<open>The same host with a full disk: every write to a file fails.\<close>

definition full_disk_host :: os_state where
  "full_disk_host =
     quiet_host\<lparr>write_error := (\<lambda>d. Some (IOError ''no space left on device''))\<rparr>"

text \<open>\<^verbatim>\<open>struct { Level int8 `csv:"level"` }\<close>: no table has a converter for \<^verbatim>\<open>int8\<close>.\<close>

definition Level :: struct_type where
  "Level = [\<lparr>Type = TInt8, Tag = Some ''level'', IsExported = True\<rparr>]"

text \<open>\<^verbatim>\<open>struct { ID int64 `csv:"id"`; Name string `csv:"name"` }\<close>, the spec's example.\<close>

definition Person :: struct_type where
  "Person = [\<lparr>Type = TInt64, Tag = Some ''id'', IsExported = True\<rparr>, \<lparr>Type = TString, Tag = Some ''name'', IsExported = True\<rparr>]"

text \<open>
  A library for records without floating-point and time fields: it parses no float and
  no time.
\<close>

definition no_float_time :: stdlib where
  "no_float_time =
     \<lparr>ParseFloat = (\<lambda>s. Inl ErrSyntax), FormatFloat = (\<lambda>x. ''NaN''),
      overflowFloat32 = (\<lambda>x. False), float32 = (\<lambda>x. x),
      time_Parse = (\<lambda>layout s. Inl (ErrorString ''parsing time'')),
      time_Format = (\<lambda>t layout. layout)\<rparr>"

text \<open>\<^verbatim>\<open>struct { A int64 `csv:"id"`; B string `csv:"id"` }\<close>: one tag name twice.\<close>

definition Twice :: struct_type where
  "Twice = [\<lparr>Type = TInt64, Tag = Some ''id'', IsExported = True\<rparr>, \<lparr>Type = TString, Tag = Some ''id'', IsExported = True\<rparr>]"

text \<open>The host after a successful \<^verbatim>\<open>os.OpenFile\<close> of \<open>path\<close>.\<close>

definition opened :: "os_state \<Rightarrow> string \<Rightarrow> os_state" where
  "opened os path = snd (os_OpenFile os path)"

subsection \<open>What the resolver takes from one field\<close>

text \<open>
  The body of the resolver's loop, for one field: the segment of the tag that names the
  column in the given direction, and whether the field enters the map (it has a tag, and
  the name is neither empty nor \<^verbatim>\<open>-\<close>). A field that enters the write map is
  \<^emph>\<open>write-bound\<close>.
\<close>

definition resolved_name :: "bool \<Rightarrow> string \<Rightarrow> string" where
  "resolved_name forWrite tag =
     (let readTag = strings_Split tag;
          readTag = (if forWrite \<and> length readTag > 1 then tl readTag else readTag)
      in hd readTag)"

definition field_name :: "bool \<Rightarrow> StructField \<Rightarrow> string" where
  "field_name forWrite fld =
     (case Tag fld of None \<Rightarrow> [] | Some tag \<Rightarrow> resolved_name forWrite tag)"

definition is_bound :: "bool \<Rightarrow> StructField \<Rightarrow> bool" where
  "is_bound forWrite fld =
     (case Tag fld of
        None \<Rightarrow> False
      | Some tag \<Rightarrow> resolved_name forWrite tag \<noteq> [] \<and> resolved_name forWrite tag \<noteq> ''-'')"

text \<open>\<^verbatim>\<open>struct { Note string; ID int64 `csv:"id"`; Name string `csv:"name"` }\<close>\<close>

definition Padded :: struct_type where
  "Padded = \<lparr>Type = TString, Tag = None, IsExported = True\<rparr> # Person"

subsection \<open>Values of a type, and values that survive their text\<close>

text \<open>The values a field of the given type can hold.\<close>

definition has_type :: "gotype \<Rightarrow> govalue \<Rightarrow> bool" where
  "has_type tp v =
     (case v of
        VInt i \<Rightarrow>
          (case int_bits tp of
             Some b \<Rightarrow> - (2 ^ (b - 1)) \<le> i \<and> i < 2 ^ (b - 1)
           | None \<Rightarrow> False)
      | VUint n \<Rightarrow> (case uint_bits tp of Some b \<Rightarrow> n < 2 ^ b | None \<Rightarrow> False)
      | VFloat x \<Rightarrow> tp = TFloat64 \<or> tp = TFloat32
      | VString s \<Rightarrow> tp = TString
      | VBool b \<Rightarrow> tp = TBool
      | VTime t \<Rightarrow> tp = TTime
      | VNullString s valid \<Rightarrow> tp = TNullString
      | VNullInt64 i valid \<Rightarrow> tp = TNullInt64 \<and> - (2 ^ 63) \<le> i \<and> i < 2 ^ 63
      | VNullInt32 i valid \<Rightarrow> tp = TNullInt32 \<and> - (2 ^ 31) \<le> i \<and> i < 2 ^ 31
      | VNullInt16 i valid \<Rightarrow> tp = TNullInt16 \<and> - (2 ^ 15) \<le> i \<and> i < 2 ^ 15
      | VNullTime t valid \<Rightarrow> tp = TNullTime
      | VNullFloat64 x valid \<Rightarrow> tp = TNullFloat64
      | VNullBool b valid \<Rightarrow> tp = TNullBool
      | VOther s \<Rightarrow> (case tp of TOther n \<Rightarrow> True | _ \<Rightarrow> False))"

text \<open>
  What the library has to do for a float and for a time: print it as a text that is not
  empty and that parses back to the same value. For \<^verbatim>\<open>strconv\<close> these are the floats
  other than NaN (a \<^verbatim>\<open>float32\<close> field holding a \<^verbatim>\<open>float32\<close>); for the layout
  \<^verbatim>\<open>time.DateTime\<close> these are the times of whole seconds in UTC with a year from 0 to 9999.
\<close>

definition float_faithful :: "stdlib \<Rightarrow> gotype \<Rightarrow> float64 \<Rightarrow> bool" where
  "float_faithful L tp x =
     (FormatFloat L x \<noteq> [] \<and> ParseFloat L (FormatFloat L x) = Inr x \<and>
      (tp \<noteq> TFloat32 \<or> (\<not> overflowFloat32 L x \<and> float32 L x = x)))"

definition time_faithful :: "stdlib \<Rightarrow> Time \<Rightarrow> bool" where
  "time_faithful L t =
     (time_Format L t DateTime \<noteq> [] \<and>
      time_Parse L DateTime (time_Format L t DateTime) = Inr t)"

text \<open>
  The values the text form can tell apart. The empty cell stands for the null state, so a
  valid \<^verbatim>\<open>NullString\<close> must not be empty, and a wrapper in the null state must hold the
  zero payload, which is all that reading an empty cell into a new record can give.
\<close>

definition text_faithful :: "stdlib \<Rightarrow> gotype \<Rightarrow> govalue \<Rightarrow> bool" where
  "text_faithful L tp v =
     (case v of
        VInt i \<Rightarrow> True
      | VUint n \<Rightarrow> True
      | VFloat x \<Rightarrow> float_faithful L tp x
      | VString s \<Rightarrow> True
      | VBool b \<Rightarrow> True
      | VTime t \<Rightarrow> time_faithful L t
      | VNullString s valid \<Rightarrow> (if valid then s \<noteq> [] else s = [])
      | VNullInt64 i valid \<Rightarrow> valid \<or> i = 0
      | VNullInt32 i valid \<Rightarrow> valid \<or> i = 0
      | VNullInt16 i valid \<Rightarrow> valid \<or> i = 0
      | VNullTime t valid \<Rightarrow> (if valid then time_faithful L t else t = zero_Time)
      | VNullFloat64 x valid \<Rightarrow> (if valid then float_faithful L TFloat64 x else x = 0)
      | VNullBool b valid \<Rightarrow> valid \<or> \<not> b
      | VOther s \<Rightarrow> False)"

text \<open>
  What \<^verbatim>\<open>Write\<close> does with an exported field that has no override, and what \<^verbatim>\<open>Read\<close>
  does with a cell for an exported field of a new record that has no override, given the
  reader's table.
\<close>

definition write_default :: "stdlib \<Rightarrow> gotype \<Rightarrow> govalue \<Rightarrow> failure + string" where
  "write_default L tp v =
     (case buildWriteDefaultConverters L tp of
        None \<Rightarrow> Inl (Panic NilFuncCall)
      | Some fnc \<Rightarrow> fnc tp True v)"

definition read_default :: "(gotype \<Rightarrow> Conversion option) \<Rightarrow> gotype \<Rightarrow> string \<Rightarrow> failure + govalue" where
  "read_default table tp s =
     (case table tp of
        None \<Rightarrow> Inl (Error ErrConverterNotFoundForType)
      | Some cv \<Rightarrow> cv s tp True (zero_value tp))"

subsection \<open>Record types for the round trip\<close>

text \<open>\<^verbatim>\<open>struct { ID int64 `csv:"id"`; Nick sql.NullString `csv:"nick"` }\<close>\<close>

definition Account :: struct_type where
  "Account = [\<lparr>Type = TInt64, Tag = Some ''id'', IsExported = True\<rparr>,
              \<lparr>Type = TNullString, Tag = Some ''nick'', IsExported = True\<rparr>]"

text \<open>
  \<^verbatim>\<open>struct { ID int64 `csv:"id"`; Name string `csv:"name"`; Nick sql.NullString `csv:"nick"`; Note string }\<close>
\<close>

definition Member :: struct_type where
  "Member = [\<lparr>Type = TInt64, Tag = Some ''id'', IsExported = True\<rparr>, \<lparr>Type = TString, Tag = Some ''name'', IsExported = True\<rparr>,
             \<lparr>Type = TNullString, Tag = Some ''nick'', IsExported = True\<rparr>, \<lparr>Type = TString, Tag = None, IsExported = True\<rparr>]"

section \<open>Properties\<close>

subsection \<open>Fields that can be set and handed out\<close>

lemma assign_True [simp]: "assign True method x = Inr x"
  by (simp add: assign_def)

lemma Interface_True [simp]: "Interface True r = r"
  by (simp add: Interface_def)

subsection \<open>The read-side binder\<close>

lemma strings_Split_nonempty: "strings_Split s \<noteq> []"
  by (induction s) (auto split: list.splits)

lemma header_loop_error:
  "header_loop cols i tf ni inn = Inl e \<Longrightarrow> e = ErrDuplicateHeaderInCSV"
  by (induction cols i tf ni inn rule: header_loop.induct) (auto split: if_splits)

text \<open>
  The first loop stops with the duplicate error at the first cell that is already a key of
  \<open>nameIndex\<close>: a key it started with, or an earlier cell that is a struct tag.
\<close>

lemma header_loop_dup_iff:
  "header_loop cols i tf ni inn = Inl ErrDuplicateHeaderInCSV \<longleftrightarrow>
     (\<exists>j<length cols. map_of ni (cols ! j) \<noteq> None \<or>
        (\<exists>k<j. cols ! k = cols ! j \<and> map_of tf (cols ! j) \<noteq> None))"
proof (induction cols arbitrary: i ni inn)
  case Nil
  then show ?case by simp
next
  case (Cons col cols)
  show ?case
  proof (cases "map_of ni col \<noteq> None")
    case True
    then show ?thesis by auto
  next
    case notin: False
    show ?thesis
    proof (cases "map_of tf col \<noteq> None")
      case True
      then show ?thesis
        using notin by (auto simp: Cons.IH update_conv' Ex_less_Suc2)
    next
      case False
      then show ?thesis
        using notin by (auto simp: Cons.IH update_conv' Ex_less_Suc2)
    qed
  qed
qed

lemma header_loop_Inr:
  assumes "header_loop cols i tf ni inn = Inr (ni', inn')"
  shows "map_of ni' nm = Some p \<longleftrightarrow>
           map_of ni nm = Some p \<or>
           (\<exists>j<length cols. p = i + j \<and> cols ! j = nm \<and> map_of tf nm \<noteq> None)"
  using assms
proof (induction cols arbitrary: i ni inn)
  case Nil
  then show ?case by simp
next
  case (Cons col cols)
  then show ?case
    by (auto simp: update_conv' Ex_less_Suc2 split: if_splits)
qed

lemma header_loop_Inr_index:
  assumes "header_loop cols i tf ni inn = Inr (ni', inn')"
    and "\<And>q n. map_of inn q = Some n \<Longrightarrow> q < i"
  shows "map_of inn' p = Some nm \<longleftrightarrow>
           map_of inn p = Some nm \<or>
           (\<exists>j<length cols. p = i + j \<and> cols ! j = nm \<and> map_of tf nm \<noteq> None)"
  using assms
proof (induction cols arbitrary: i ni inn)
  case Nil
  then show ?case by simp
next
  case (Cons col cols)
  from Cons.prems(1) have nodup: "map_of ni col = None"
    by (auto split: if_splits)
  show ?case
  proof (cases "map_of tf col \<noteq> None")
    case True
    let ?inn = "AList.update i col inn"
    have run: "header_loop cols (Suc i) tf (AList.update col i ni) ?inn = Inr (ni', inn')"
      using Cons.prems(1) nodup True by simp
    have bound: "\<And>q n. map_of ?inn q = Some n \<Longrightarrow> q < Suc i"
      using Cons.prems(2) by (auto simp: update_conv' less_Suc_eq split: if_splits)
    have old: "map_of inn i = None"
      using Cons.prems(2) [of i] by (cases "map_of inn i") auto
    have "map_of inn' p = Some nm \<longleftrightarrow>
            map_of ?inn p = Some nm \<or>
            (\<exists>j<length cols. p = Suc i + j \<and> cols ! j = nm \<and> map_of tf nm \<noteq> None)"
      by (rule Cons.IH [OF run bound])
    also have "\<dots> \<longleftrightarrow> map_of inn p = Some nm \<or>
            (\<exists>j<length (col # cols). p = i + j \<and> (col # cols) ! j = nm \<and> map_of tf nm \<noteq> None)"
      using True old by (auto simp: update_conv' Ex_less_Suc2)
    finally show ?thesis .
  next
    case False
    have run: "header_loop cols (Suc i) tf ni inn = Inr (ni', inn')"
      using Cons.prems(1) nodup False by simp
    have bound: "\<And>q n. map_of inn q = Some n \<Longrightarrow> q < Suc i"
      using Cons.prems(2) less_Suc_eq by blast
    have "map_of inn' p = Some nm \<longleftrightarrow>
            map_of inn p = Some nm \<or>
            (\<exists>j<length cols. p = Suc i + j \<and> cols ! j = nm \<and> map_of tf nm \<noteq> None)"
      by (rule Cons.IH [OF run bound])
    also have "\<dots> \<longleftrightarrow> map_of inn p = Some nm \<or>
            (\<exists>j<length (col # cols). p = i + j \<and> (col # cols) ! j = nm \<and> map_of tf nm \<noteq> None)"
      using False by (auto simp: Ex_less_Suc2)
    finally show ?thesis .
  qed
qed

lemma header_loop_cong:
  "map_of tf = map_of tf' \<Longrightarrow> header_loop cols i tf ni inn = header_loop cols i tf' ni inn"
  by (induction cols i tf ni inn rule: header_loop.induct) auto

lemma tags_in_header_iff:
  "tags_in_header tf ni =
     (if \<exists>k \<in> fst ` set tf. map_of ni k = None then Some ErrStructTagNotInCSV else None)"
  by (induction tf ni rule: tags_in_header.induct) auto

lemma tags_in_header_error: "tags_in_header tf ni = Some e \<Longrightarrow> e = ErrStructTagNotInCSV"
  by (simp add: tags_in_header_iff split: if_splits)

lemma bind_dup_iff:
  "(case header_loop hdr 0 tf [] [] of
      Inl err \<Rightarrow> Inl err
    | Inr (nameIndex, indexName) \<Rightarrow>
        (case tags_in_header tf nameIndex of
           Some err \<Rightarrow> Inl err
         | None \<Rightarrow> Inr (nameIndex, indexName))) = Inl ErrDuplicateHeaderInCSV \<longleftrightarrow>
   (\<exists>j<length hdr. \<exists>k<j. hdr ! k = hdr ! j \<and> map_of tf (hdr ! j) \<noteq> None)"
proof (cases "header_loop hdr 0 tf [] []")
  case (Inl e)
  then have "e = ErrDuplicateHeaderInCSV"
    by (rule header_loop_error)
  with Inl show ?thesis
    using header_loop_dup_iff [of hdr 0 tf "[]" "[]"] by simp
next
  case (Inr r)
  then have "header_loop hdr 0 tf [] [] \<noteq> Inl ErrDuplicateHeaderInCSV"
    by simp
  then have "\<not> (\<exists>j<length hdr. \<exists>k<j. hdr ! k = hdr ! j \<and> map_of tf (hdr ! j) \<noteq> None)"
    using header_loop_dup_iff [of hdr 0 tf "[]" "[]"] by simp
  moreover have "(case tags_in_header tf (fst r) of
                    Some err \<Rightarrow> Inl err
                  | None \<Rightarrow> Inr r) \<noteq> Inl ErrDuplicateHeaderInCSV"
    by (auto split: option.splits dest: tags_in_header_error)
  ultimately show ?thesis
    using Inr by (cases r) (auto split: option.splits)
qed

text \<open>
  How far the duplicate test reaches. It looks the cell up in \<open>nameIndex\<close>, which only
  ever holds read-names, so in both copies of the binder (\<^verbatim>\<open>buildHeaderNameIndexCache\<close>
  and \<^verbatim>\<open>buildReadHeaderNameIndexCache\<close>) the error \<open>ErrDuplicateHeaderInCSV\<close> is
  returned exactly when a cell that is one of the resolved read-names stands at two
  positions of the header row.
\<close>

lemma duplicate_header_iff_bound_name_repeats:
  "(buildHeaderNameIndexCache hdr tf = Inl ErrDuplicateHeaderInCSV \<longleftrightarrow>
      (\<exists>j<length hdr. \<exists>k<j. hdr ! k = hdr ! j \<and> map_of tf (hdr ! j) \<noteq> None)) \<and>
   (buildReadHeaderNameIndexCache hdr tf = Inl ErrDuplicateHeaderInCSV \<longleftrightarrow>
      (\<exists>j<length hdr. \<exists>k<j. hdr ! k = hdr ! j \<and> map_of tf (hdr ! j) \<noteq> None))"
  unfolding buildHeaderNameIndexCache_def buildReadHeaderNameIndexCache_def
  by (simp only: bind_dup_iff)

text \<open>
  Claim C4 fails on the code. The header \<^verbatim>\<open>id,extra,extra\<close> holds the cell \<^verbatim>\<open>extra\<close>
  at positions 1 and 2, and binding it against the schema with the single read-name
  \<^verbatim>\<open>id\<close> succeeds in both copies of the binder, where the claim, the comment of the
  binder (\<^verbatim>\<open>checks for duplicate headers\<close>) and the comment of the error
  (\<^verbatim>\<open>csv had 2 columns with the same header\<close>) say that it fails with
  \<open>ErrDuplicateHeaderInCSV\<close>.
\<close>

theorem repeated_unbound_header_cell_is_accepted:
  "[''id'', ''extra'', ''extra''] ! 1 = [''id'', ''extra'', ''extra''] ! 2 \<and>
   buildHeaderNameIndexCache [''id'', ''extra'', ''extra''] [(''id'', 0)]
     = Inr ([(''id'', 0)], [(0, ''id'')]) \<and>
   buildReadHeaderNameIndexCache [''id'', ''extra'', ''extra''] [(''id'', 0)]
     = Inr ([(''id'', 0)], [(0, ''id'')])"
  by (simp add: buildHeaderNameIndexCache_def buildReadHeaderNameIndexCache_def)

subsection \<open>Worked runs of the reader and the writer\<close>

lemmas eval_defs = buildReflectTagIndexCache_def buildReflectTagIndexCache_read_def
  buildHeaderNameIndexCache_def buildWriteHeaderNameIndexCache_def default_header_def
  NewFileWriter_def NewFileReader_def os_OpenFile_def File_Close_def csv_NewWriter_def
  csv_Write_def csv_Flush_def DefaultWriterOption_def slice_def Write_def Read_def
  validDelim_def new_def zero_value_def index_or_zero_def file_bytes_def Close_def
  AddConverter_def AddConvertor_def quiet_host_def full_disk_host_def Level_def Person_def

text \<open>
  Claim C2 holds on the read path and fails on the write path. For a field of type
  \<^verbatim>\<open>int8\<close>, which has neither an override nor a default converter, \<^verbatim>\<open>FileReader.Read\<close>
  returns \<open>ErrConverterNotFoundForType\<close>, while \<^verbatim>\<open>FileWriter.Write\<close> calls the nil
  function that the lookup \<^verbatim>\<open>doc.defaultConverters[tp]\<close> gave it, and panics.
\<close>

theorem Write_without_default_converter_panics:
  "(case NewFileWriter quiet_host Level L ''out.csv'' [] of
      (Inr doc, os1) \<Rightarrow> fst (Write doc Level [VInt 1])
    | (Inl e, os1) \<Rightarrow> Some e) = Some (Panic NilFuncCall) \<and>
   (case NewFileReader Level L (Inr (Inr [''level''])) of
      Inr fr \<Rightarrow> Read fr Level (Inr [''1''])
    | Inl e \<Rightarrow> Inl (Error e)) = Inl (Error ErrConverterNotFoundForType)"
  by (simp add: eval_defs buildWriteDefaultConverters_def buildDefaultConverts_def)

text \<open>
  Claim C3 against \<^verbatim>\<open>buildDefaultConverts\<close>, the table \<^verbatim>\<open>NewFileReader\<close> installs: its
  converters for the signed, unsigned and floating-point kinds return no error for the
  empty string and leave the field as it is, so a row with an empty \<^verbatim>\<open>id\<close> cell is read
  as \<^verbatim>\<open>ID = 0\<close>.
\<close>

theorem empty_cell_for_numeric_field_is_accepted:
  "buildDefaultConverts L TInt64 = Some dc_intConversion \<and>
   dc_intConversion [] TInt64 canSet v = Inr v \<and>
   buildDefaultConverts L TUint64 = Some dc_uintConversion \<and>
   dc_uintConversion [] TUint64 canSet v = Inr v \<and>
   buildDefaultConverts L TFloat64 = Some (dc_floatConversion L) \<and>
   dc_floatConversion L [] TFloat64 canSet v = Inr v \<and>
   (case NewFileReader Person L (Inr (Inr [''id'', ''name''])) of
      Inr fr \<Rightarrow> Read fr Person (Inr ['''', ''alice''])
    | Inl e \<Rightarrow> Inl (Error e)) = Inr [VInt 0, VString ''alice'']"
  by (simp add: eval_defs buildDefaultConverts_def dc_intConversion_def dc_uintConversion_def
      dc_floatConversion_def stringConversion_def)

text \<open>
  The newer table \<^verbatim>\<open>buildReadDefaultConverters\<close> of the same file does what claim C3
  says: the empty string is an error for each of the three numeric converters.
\<close>

lemma rdc_numeric_converters_reject_empty:
  "rdc_intConversion [] tp canSet v = Inl (Error (ErrorString ''cannot convert empty string to int*'')) \<and>
   rdc_uintConversion [] tp canSet v = Inl (Error (ErrorString ''cannot convert empty string to uint*'')) \<and>
   rdc_floatConversion L [] tp canSet v
     = Inl (Error (ErrorString ''cannot convert empty string to float*''))"
  by (simp add: rdc_intConversion_def rdc_uintConversion_def rdc_floatConversion_def)

text \<open>
  The part of claim C3 about the null-capable wrappers holds in both read tables and in
  the write table: the empty string leaves the field (invalid in a new record) as it is,
  and a wrapper that is not valid is written as the empty string.
\<close>

lemma null_wrappers_on_empty_text:
  "sqlNullInt64Conversion [] tp canSet v = Inr v \<and>
   sqlNullInt32Conversion [] tp canSet v = Inr v \<and>
   sqlNullInt16Conversion [] tp canSet v = Inr v \<and>
   dc_sqlNullFloat64Conversion L [] tp canSet v = Inr v \<and>
   rdc_sqlNullFloat64Conversion L [] tp canSet v = Inr v \<and>
   wdc_sqlNullInt64Conversion tp True (VNullInt64 i False) = Inr [] \<and>
   wdc_sqlNullInt32Conversion tp True (VNullInt32 i False) = Inr [] \<and>
   wdc_sqlNullInt16Conversion tp True (VNullInt16 i False) = Inr [] \<and>
   wdc_sqlNullFloat64Conversion L tp True (VNullFloat64 x False) = Inr []"
  by (simp add: sqlNullInt64Conversion_def sqlNullInt32Conversion_def
      sqlNullInt16Conversion_def dc_sqlNullFloat64Conversion_def
      rdc_sqlNullFloat64Conversion_def wdc_sqlNullInt64Conversion_def
      wdc_sqlNullInt32Conversion_def wdc_sqlNullInt16Conversion_def
      wdc_sqlNullFloat64Conversion_def)

text \<open>
  Claim C6 fails for the writer: \<^verbatim>\<open>FileWriter.AddConverter\<close> has no test of the name.
  On a writer for \<^verbatim>\<open>Person\<close>, whose write-names are \<^verbatim>\<open>id\<close> and \<^verbatim>\<open>name\<close>, installing
  a converter for \<^verbatim>\<open>nope\<close> returns no error and changes the override table.
\<close>

theorem writer_AddConverter_accepts_unknown_column:
  "(case NewFileWriter quiet_host Person L ''out.csv'' [] of
      (Inr doc, os1) \<Rightarrow>
        map_of (reflectIndexes doc) ''nope'' = None \<and>
        fst (AddConverter doc ''nope'' h) = None \<and>
        customConverters (snd (AddConverter doc ''nope'' h)) = [(''nope'', h)] \<and>
        customConverters doc = []
    | (Inl e, os1) \<Rightarrow> False)"
  by (simp add: eval_defs)

text \<open>
  The reader's \<^verbatim>\<open>AddConvertor\<close> does what claim C6 says: a name that is no key of
  \<open>headerIndex\<close> is refused and the reader is returned as it was.
\<close>

lemma reader_AddConvertor_rejects_unknown_column:
  "map_of (headerIndex fr) header = None \<Longrightarrow>
     AddConvertor fr header handler = (Some ErrNotFoundHeaderInCSV, fr)"
  by (simp add: AddConvertor_def)

text \<open>
  Claim C7 fails for the flush: \<^verbatim>\<open>Close\<close> never asks the csv writer for its error. On
  a host with a full disk, a header and a row wait in the buffer, \<^verbatim>\<open>Close\<close> returns nil,
  the file holds nothing, and the failure sits unread in the csv writer.
\<close>

theorem Close_swallows_flush_failure:
  "(case NewFileWriter full_disk_host Person L ''out.csv'' [] of
      (Inr doc, os1) \<Rightarrow>
        (case Write doc Person [VInt 7, VString ''alice''] of
           (res, doc1) \<Rightarrow>
             (case Close doc1 os1 of
                (cerr, doc2, os2) \<Rightarrow>
                  res = None \<and> cerr = None \<and>
                  buffered (cw doc1) = [[''id'', ''name''], [''7'', ''alice'']] \<and>
                  file_bytes os2 ''out.csv'' = [] \<and>
                  csv_Error (cw doc2) = Some (IOError ''no space left on device'')))
    | (Inl e, os1) \<Rightarrow> False)"
  by (simp add: eval_defs buildWriteDefaultConverters_def wdc_intConversion_def
      wdc_stringConversion_def FormatInt_def FormatUint.simps digit_char_def csv_Error_def)

subsection \<open>Opening a writer\<close>

lemma tag_loop_error: "tag_loop fw fs i acc = Inl e \<Longrightarrow> e = ErrStructTagDuplicate"
  by (induction fs arbitrary: i acc) (auto simp: Let_def split: option.splits if_splits)

text \<open>
  Claim C10. \<^verbatim>\<open>NewFileWriter\<close> opens the target with \<^verbatim>\<open>O_CREATE|O_TRUNC\<close> before it
  resolves the tags. When the open succeeds, the file is empty and its descriptor is open
  in the host that results; when the resolver then fails (its only error is the duplicate
  tag name), or the requested order is longer than the resolved write-names, the call
  returns that error together with exactly this host: the file stays truncated and the
  descriptor stays open. Both versions of \<^verbatim>\<open>NewFileWriter\<close> (with options, and with the
  \<^verbatim>\<open>sort\<close> argument of filewriter.go) behave so.
\<close>

theorem NewFileWriter_failed_validation_leaves_file_truncated_and_open:
  "open_error os path = None \<Longrightarrow>
   map_of (files (opened os path)) path = Some [] \<and>
   next_fd os \<in> set (open_fds (opened os path)) \<and>
   (buildReflectTagIndexCache T True = Inl err \<longrightarrow>
      err = ErrStructTagDuplicate \<and>
      NewFileWriter os T L path options = (Inl (Error ErrStructTagDuplicate), opened os path) \<and>
      NewFileWriter_sort os T L path sort' = (Inl (Error ErrStructTagDuplicate), opened os path)) \<and>
   (buildReflectTagIndexCache T True = Inr ri \<and> length ri < length hdr \<longrightarrow>
      (outputHeader (apply_opts options DefaultWriterOption) = Some hdr \<longrightarrow>
         NewFileWriter os T L path options = (Inl (Error ErrToFewStructTags), opened os path)) \<and>
      NewFileWriter_sort os T L path (Some hdr) = (Inl (Error ErrToFewStructTags), opened os path))"
proof -
  assume ok: "open_error os path = None"
  then have op: "os_OpenFile os path = (Inr \<lparr>fd = next_fd os, name = path\<rparr>, opened os path)"
    by (simp add: os_OpenFile_def opened_def)
  have st: "map_of (files (opened os path)) path = Some []"
    "next_fd os \<in> set (open_fds (opened os path))"
    using ok by (simp_all add: os_OpenFile_def opened_def update_conv')
  have dup: "buildReflectTagIndexCache T True = Inl err \<longrightarrow>
      err = ErrStructTagDuplicate \<and>
      NewFileWriter os T L path options = (Inl (Error ErrStructTagDuplicate), opened os path) \<and>
      NewFileWriter_sort os T L path sort' = (Inl (Error ErrStructTagDuplicate), opened os path)"
  proof
    assume r: "buildReflectTagIndexCache T True = Inl err"
    then have "err = ErrStructTagDuplicate"
      unfolding buildReflectTagIndexCache_def by (rule tag_loop_error)
    with r show "err = ErrStructTagDuplicate \<and>
      NewFileWriter os T L path options = (Inl (Error ErrStructTagDuplicate), opened os path) \<and>
      NewFileWriter_sort os T L path sort' = (Inl (Error ErrStructTagDuplicate), opened os path)"
      by (simp add: NewFileWriter_def NewFileWriter_sort_def op)
  qed
  have long: "buildReflectTagIndexCache T True = Inr ri \<and> length ri < length hdr \<longrightarrow>
      (outputHeader (apply_opts options DefaultWriterOption) = Some hdr \<longrightarrow>
         NewFileWriter os T L path options = (Inl (Error ErrToFewStructTags), opened os path)) \<and>
      NewFileWriter_sort os T L path (Some hdr) = (Inl (Error ErrToFewStructTags), opened os path)"
    by (simp add: NewFileWriter_def NewFileWriter_sort_def op slice_def Let_def)
  from st dup long show ?thesis by simp
qed

text \<open>
  Two runs on the quiet host: the record type \<open>Twice\<close> repeats a tag name, and for
  \<open>Person\<close> the order \<^verbatim>\<open>id,name,id\<close> names three columns where two write-names exist.
  Each call fails, and \<^verbatim>\<open>out.csv\<close> is left empty with descriptor 3 open.
\<close>

theorem NewFileWriter_failed_validation_witness:
  "open_error quiet_host ''out.csv'' = None \<and>
   buildReflectTagIndexCache Twice True = Inl ErrStructTagDuplicate \<and>
   NewFileWriter quiet_host Twice no_float_time ''out.csv'' []
     = (Inl (Error ErrStructTagDuplicate), opened quiet_host ''out.csv'') \<and>
   NewFileWriter_sort quiet_host Twice no_float_time ''out.csv'' None
     = (Inl (Error ErrStructTagDuplicate), opened quiet_host ''out.csv'') \<and>
   buildReflectTagIndexCache Person True = Inr [(''id'', 0), (''name'', 1)] \<and>
   outputHeader (apply_opts [Some (WithFormatHeaders (Some [''id'', ''name'', ''id'']))]
       DefaultWriterOption) = Some [''id'', ''name'', ''id''] \<and>
   NewFileWriter quiet_host Person no_float_time ''out.csv''
       [Some (WithFormatHeaders (Some [''id'', ''name'', ''id'']))]
     = (Inl (Error ErrToFewStructTags), opened quiet_host ''out.csv'') \<and>
   NewFileWriter_sort quiet_host Person no_float_time ''out.csv'' (Some [''id'', ''name'', ''id''])
     = (Inl (Error ErrToFewStructTags), opened quiet_host ''out.csv'') \<and>
   map_of (files (opened quiet_host ''out.csv'')) ''out.csv'' = Some [] \<and>
   open_fds (opened quiet_host ''out.csv'') = [3]"
proof -
  have a: "open_error quiet_host ''out.csv'' = None"
    by (simp add: quiet_host_def)
  have b: "buildReflectTagIndexCache Twice True = Inl ErrStructTagDuplicate"
    by (simp add: buildReflectTagIndexCache_def Twice_def)
  have c: "buildReflectTagIndexCache Person True = Inr [(''id'', 0), (''name'', 1)]"
    by (simp add: buildReflectTagIndexCache_def Person_def)
  have d: "outputHeader (apply_opts [Some (WithFormatHeaders (Some [''id'', ''name'', ''id'']))]
       DefaultWriterOption) = Some [''id'', ''name'', ''id'']"
    by (simp add: WithFormatHeaders_def)
  have e: "open_fds (opened quiet_host ''out.csv'') = [3]"
    by (simp add: opened_def os_OpenFile_def quiet_host_def)
  show ?thesis
    using a b c d e
      NewFileWriter_failed_validation_leaves_file_truncated_and_open
        [OF a, where T = Twice and err = ErrStructTagDuplicate and L = no_float_time
           and options = "[]" and sort' = None]
      NewFileWriter_failed_validation_leaves_file_truncated_and_open
        [OF a, where T = Person and L = no_float_time and ri = "[(''id'', 0), (''name'', 1)]"
           and hdr = "[''id'', ''name'', ''id'']"
           and options = "[Some (WithFormatHeaders (Some [''id'', ''name'', ''id'']))]"]
    by simp
qed

subsection \<open>Determinism of resolving and binding\<close>

lemma tags_in_header_cong:
  assumes "map_of tf = map_of tf'"
  shows "tags_in_header tf ni = tags_in_header tf' ni"
proof -
  have "fst ` set tf = fst ` set tf'"
    using assms by (metis dom_map_of_conv_image_fst)
  then show ?thesis
    by (simp add: tags_in_header_iff)
qed

lemma read_tag_loop_eq: "read_tag_loop fs i acc = tag_loop False fs i acc"
  by (induction fs arbitrary: i acc) (auto simp: Let_def split: option.splits)

lemma buildReflectTagIndexCache_read_eq:
  "buildReflectTagIndexCache_read T = buildReflectTagIndexCache T False"
  by (simp add: buildReflectTagIndexCache_read_def buildReflectTagIndexCache_def read_tag_loop_eq)

text \<open>
  Claim C8. The resolver walks the fields in declaration order and is a function of the
  tags. The binder reads the resolved map by lookup, and once by a \<^verbatim>\<open>range\<close> loop whose
  order Go leaves open. A run is given the resolved map as a list in the order that run
  happens to see (\<open>run1\<close>, \<open>run2\<close>: any lists that hold the map \<open>ri\<close>); for one header
  row, two runs return the same result: the same two maps, or the same error. Both copies
  of the binder are covered.
\<close>

theorem resolve_bind_deterministic:
  "buildReflectTagIndexCache T forWrite = Inr ri \<Longrightarrow>
   map_of run1 = map_of ri \<Longrightarrow> map_of run2 = map_of ri \<Longrightarrow>
     buildHeaderNameIndexCache hdr run1 = buildHeaderNameIndexCache hdr run2 \<and>
     buildReadHeaderNameIndexCache hdr run1 = buildReadHeaderNameIndexCache hdr run2"
proof -
  assume "map_of run1 = map_of ri" and "map_of run2 = map_of ri"
  then have same: "map_of run1 = map_of run2"
    by simp
  have first: "header_loop hdr 0 run1 [] [] = header_loop hdr 0 run2 [] []"
    using same by (rule header_loop_cong)
  have second: "tags_in_header run1 = tags_in_header run2"
    using same by (auto intro: tags_in_header_cong)
  show ?thesis
    unfolding buildHeaderNameIndexCache_def buildReadHeaderNameIndexCache_def first second
    by simp
qed

text \<open>
  The resolved map of \<open>Person\<close> seen in both orders, bound to the header
  \<^verbatim>\<open>name,id,extra\<close>.
\<close>

theorem resolve_bind_deterministic_witness:
  "buildReflectTagIndexCache Person False = Inr [(''id'', 0), (''name'', 1)] \<and>
   map_of [(''name'', 1), (''id'', 0)] = map_of [(''id'', 0), (''name'', 1 :: nat)] \<and>
   buildHeaderNameIndexCache [''name'', ''id'', ''extra''] [(''id'', 0), (''name'', 1)]
     = buildHeaderNameIndexCache [''name'', ''id'', ''extra''] [(''name'', 1), (''id'', 0)] \<and>
   buildHeaderNameIndexCache [''name'', ''id'', ''extra''] [(''name'', 1), (''id'', 0)]
     = Inr ([(''name'', 0), (''id'', 1)], [(0, ''name''), (1, ''id'')])"
proof -
  have a: "buildReflectTagIndexCache Person False = Inr [(''id'', 0), (''name'', 1)]"
    by (simp add: buildReflectTagIndexCache_def Person_def)
  have b: "map_of [(''name'', 1), (''id'', 0)] = map_of [(''id'', 0), (''name'', 1 :: nat)]"
    by (rule ext) simp
  have c: "buildHeaderNameIndexCache [''name'', ''id'', ''extra''] [(''name'', 1), (''id'', 0)]
     = Inr ([(''name'', 0), (''id'', 1)], [(0, ''name''), (1, ''id'')])"
    by (simp add: buildHeaderNameIndexCache_def)
  show ?thesis
    using a b c resolve_bind_deterministic [OF a refl b, of "[''name'', ''id'', ''extra'']"]
    by simp
qed

subsection \<open>Missing and extra columns\<close>

lemma header_loop_nameIndex_None:
  assumes "header_loop hdr 0 tf [] [] = Inr (ni, inn)"
  shows "map_of ni nm = None \<longleftrightarrow> nm \<notin> set hdr \<or> map_of tf nm = None"
proof -
  have "map_of ni nm \<noteq> None \<longleftrightarrow> (\<exists>p. map_of ni nm = Some p)"
    by auto
  also have "\<dots> \<longleftrightarrow> (\<exists>j<length hdr. hdr ! j = nm \<and> map_of tf nm \<noteq> None)"
    using header_loop_Inr [OF assms, of nm] by auto
  also have "\<dots> \<longleftrightarrow> nm \<in> set hdr \<and> map_of tf nm \<noteq> None"
    by (auto simp: in_set_conv_nth)
  finally show ?thesis by blast
qed

lemma header_loop_indexName_Some:
  assumes "header_loop hdr 0 tf [] [] = Inr (ni, inn)"
  shows "map_of inn p = Some nm \<longleftrightarrow> p < length hdr \<and> hdr ! p = nm \<and> map_of tf nm \<noteq> None"
  using header_loop_Inr_index [OF assms, of p nm] by auto

lemma bind_cases:
  "buildHeaderNameIndexCache hdr tf =
     (if \<exists>j<length hdr. \<exists>k<j. hdr ! k = hdr ! j \<and> map_of tf (hdr ! j) \<noteq> None
      then Inl ErrDuplicateHeaderInCSV
      else if \<exists>nm. map_of tf nm \<noteq> None \<and> nm \<notin> set hdr then Inl ErrStructTagNotInCSV
      else header_loop hdr 0 tf [] [])"
proof (cases "header_loop hdr 0 tf [] []")
  case (Inl e)
  then have e: "e = ErrDuplicateHeaderInCSV"
    by (rule header_loop_error)
  then have "\<exists>j<length hdr. \<exists>k<j. hdr ! k = hdr ! j \<and> map_of tf (hdr ! j) \<noteq> None"
    using Inl header_loop_dup_iff [of hdr 0 tf "[]" "[]"] by simp
  then show ?thesis
    using Inl e by (simp add: buildHeaderNameIndexCache_def)
next
  case (Inr r)
  obtain ni inn where r: "r = (ni, inn)"
    by (cases r)
  have nodup: "\<not> (\<exists>j<length hdr. \<exists>k<j. hdr ! k = hdr ! j \<and> map_of tf (hdr ! j) \<noteq> None)"
    using Inr header_loop_dup_iff [of hdr 0 tf "[]" "[]"] by simp
  have "(\<exists>k \<in> fst ` set tf. map_of ni k = None) \<longleftrightarrow> (\<exists>nm. map_of tf nm \<noteq> None \<and> nm \<notin> set hdr)"
    using header_loop_nameIndex_None [OF Inr [unfolded r]]
    by (auto simp: map_of_eq_None_iff)
  then show ?thesis
    using Inr r nodup by (simp add: buildHeaderNameIndexCache_def tags_in_header_iff)
qed




lemma NewFileReader_bind:
  "buildReflectTagIndexCache_read T = Inr ri \<Longrightarrow>
   NewFileReader T L (Inr (Inr hdr)) =
     (case buildHeaderNameIndexCache hdr ri of
        Inl err \<Rightarrow> Inl err
      | Inr (nameIndex, indexName) \<Rightarrow>
          Inr \<lparr>reflectIndexes = ri, headerIndex = nameIndex, indexHeader = indexName,
               defaultConverters = buildDefaultConverts L, customConverters = []\<rparr>)"
  by (simp add: NewFileReader_def)







subsection \<open>The default output order\<close>

lemma update_new: "map_of al k = None \<Longrightarrow> AList.update k v al = al @ [(k, v)]"
  by (induction al) (auto split: if_splits)

lemma tag_loop_Inr:
  "tag_loop fw fs i acc = Inr ri \<Longrightarrow>
     ri = acc @ map (\<lambda>(k, fld). (field_name fw fld, k))
                  (filter (\<lambda>(k, fld). is_bound fw fld) (enumerate i fs))"
proof (induction fs arbitrary: i acc)
  case Nil
  then show ?case by simp
next
  case (Cons fld fs)
  show ?case
  proof (cases "Tag fld")
    case None
    then show ?thesis
      using Cons.prems Cons.IH [of "Suc i" acc]
      by (simp add: is_bound_def)
  next
    case (Some tag)
    let ?nm = "resolved_name fw tag"
    from Cons.prems Some have fresh: "map_of acc ?nm = None"
      by (auto simp: Let_def resolved_name_def split: if_splits)
    show ?thesis
    proof (cases "?nm \<noteq> [] \<and> ?nm \<noteq> ''-''")
      case True
      then have "tag_loop fw fs (Suc i) (AList.update ?nm i acc) = Inr ri"
        using Cons.prems Some fresh by (auto simp: Let_def resolved_name_def split: if_splits)
      from Cons.IH [OF this] show ?thesis
        using True Some by (simp add: update_new [OF fresh] is_bound_def field_name_def)
    next
      case False
      then have "tag_loop fw fs (Suc i) acc = Inr ri"
        using Cons.prems Some fresh by (auto simp: Let_def resolved_name_def split: if_splits)
      from Cons.IH [OF this] show ?thesis
        using False Some by (simp add: is_bound_def)
    qed
  qed
qed

lemma resolved_entries:
  assumes "buildReflectTagIndexCache T fw = Inr ri"
  shows "ri = map (\<lambda>(k, fld). (field_name fw fld, k))
                (filter (\<lambda>(k, fld). is_bound fw fld) (enumerate 0 T))"
  using tag_loop_Inr [of fw T 0 "[]" ri] assms by (simp add: buildReflectTagIndexCache_def)

lemma names_of_filtered_enumerate:
  "map (\<lambda>(k, fld). g fld) (filter (\<lambda>(k, fld). P fld) (enumerate n xs)) = map g (filter P xs)"
  by (induction xs arbitrary: n) auto

lemma indexes_of_filtered_enumerate:
  "map (\<lambda>(k, fld). k) (filter (\<lambda>(k, fld). P fld) (enumerate 0 xs))
     = filter (\<lambda>k. P (xs ! k)) [0..<length xs]"
proof (induction xs rule: rev_induct)
  case Nil
  then show ?case by simp
next
  case (snoc x xs)
  have "filter (\<lambda>k. P ((xs @ [x]) ! k)) [0..<length xs] = filter (\<lambda>k. P (xs ! k)) [0..<length xs]"
    by (rule filter_cong) (auto simp: nth_append)
  then show ?case
    using snoc by (simp add: enumerate_append_eq)
qed

lemma resolved_names:
  assumes "buildReflectTagIndexCache T fw = Inr ri"
  shows "map fst ri = map (field_name fw) (filter (is_bound fw) T)"
proof -
  have "map fst ri = map (\<lambda>(k, fld). field_name fw fld)
                       (filter (\<lambda>(k, fld). is_bound fw fld) (enumerate 0 T))"
    unfolding resolved_entries [OF assms] by (simp add: case_prod_unfold comp_def)
  then show ?thesis
    by (simp add: names_of_filtered_enumerate)
qed

lemma resolved_indexes:
  assumes "buildReflectTagIndexCache T fw = Inr ri"
  shows "map snd ri = filter (\<lambda>k. is_bound fw (T ! k)) [0..<length T]"
proof -
  have "map snd ri = map (\<lambda>(k, fld). k)
                       (filter (\<lambda>(k, fld). is_bound fw fld) (enumerate 0 T))"
    unfolding resolved_entries [OF assms] by (simp add: case_prod_unfold comp_def)
  then show ?thesis
    by (simp add: indexes_of_filtered_enumerate)
qed

lemma tag_loop_distinct:
  "distinct (map fst acc) \<Longrightarrow> tag_loop fw fs i acc = Inr ri \<Longrightarrow> distinct (map fst ri)"
proof (induction fs arbitrary: i acc)
  case Nil
  then show ?case by simp
next
  case (Cons fld fs)
  show ?case
  proof (cases "Tag fld")
    case None
    then show ?thesis
      using Cons.prems Cons.IH [of acc "Suc i"] by simp
  next
    case (Some tag)
    let ?nm = "resolved_name fw tag"
    show ?thesis
    proof (cases "?nm \<noteq> [] \<and> ?nm \<noteq> ''-''")
      case True
      then have "tag_loop fw fs (Suc i) (AList.update ?nm i acc) = Inr ri"
        using Cons.prems Some by (auto simp: Let_def resolved_name_def split: if_splits)
      moreover have "distinct (map fst (AList.update ?nm i acc))"
        using Cons.prems(1) by (rule distinct_update)
      ultimately show ?thesis
        by (rule Cons.IH [rotated])
    next
      case False
      then have "tag_loop fw fs (Suc i) acc = Inr ri"
        using Cons.prems Some by (auto simp: Let_def resolved_name_def split: if_splits)
      with Cons.prems(1) show ?thesis
        by (rule Cons.IH)
    qed
  qed
qed

lemma resolved_distinct:
  "buildReflectTagIndexCache T fw = Inr ri \<Longrightarrow> distinct (map fst ri)"
  using tag_loop_distinct [of "[]" fw T 0 ri] by (simp add: buildReflectTagIndexCache_def)

lemma same_map_same_entries:
  assumes "distinct (map fst run)" and "distinct (map fst ri)" and "map_of run = map_of ri"
  shows "set run = set ri" and "length run = length ri"
proof -
  show s: "set run = set ri"
    using assms by (simp add: map_of_inject_set)
  have "distinct run" "distinct ri"
    using assms(1,2) by (auto simp: distinct_map)
  then have "card (set run) = length run" "card (set ri) = length ri"
    by (simp_all add: distinct_card)
  with s show "length run = length ri"
    by simp
qed

lemma default_header_loop_eq:
  "default_header_loop m hdr =
     (if \<exists>e \<in> set m. length hdr \<le> snd e then Inl IndexOutOfRange
      else Inr (fold (\<lambda>(n, v) h. h[v := n]) m hdr))"
  by (induction m hdr rule: default_header_loop.induct) auto

lemma length_fold_update [simp]:
  "length (fold (\<lambda>(n, v) h. h[v := n]) m hdr) = length hdr"
  by (induction m arbitrary: hdr) auto

lemma fold_update_other:
  "v \<notin> snd ` set m \<Longrightarrow> fold (\<lambda>(n, v) h. h[v := n]) m hdr ! v = hdr ! v"
  by (induction m arbitrary: hdr) (auto simp: image_iff)

lemma fold_update_nth:
  "distinct (map snd m) \<Longrightarrow> (n, v) \<in> set m \<Longrightarrow> v < length hdr \<Longrightarrow>
     fold (\<lambda>(n, v) h. h[v := n]) m hdr ! v = n"
proof (induction m arbitrary: hdr)
  case Nil
  then show ?case by simp
next
  case (Cons e m)
  show ?case
  proof (cases "e = (n, v)")
    case True
    then have "v \<notin> snd ` set m"
      using Cons.prems(1) by (auto simp: image_iff)
    then show ?thesis
      using True Cons.prems(3) by (simp add: fold_update_other)
  next
    case False
    then have "(n, v) \<in> set m"
      using Cons.prems(2) by simp
    then show ?thesis
      using Cons.IH [of "hdr[snd e := fst e]"] Cons.prems by (cases e) simp
  qed
qed

lemma initial_segment_iff:
  fixes B :: "nat set"
  assumes sub: "B \<subseteq> {..<N}"
  shows "(\<exists>v \<in> B. card B \<le> v) \<longleftrightarrow> (\<exists>i j. i < j \<and> j < N \<and> i \<notin> B \<and> j \<in> B)"
proof
  have fin: "finite B"
    using sub finite_subset by blast
  assume "\<exists>v \<in> B. card B \<le> v"
  then obtain v where v: "v \<in> B" "card B \<le> v"
    by blast
  have "\<exists>i<v. i \<notin> B"
  proof (rule ccontr)
    assume "\<not> (\<exists>i<v. i \<notin> B)"
    then have "{..v} \<subseteq> B"
      using v(1) by (auto simp: le_less)
    then have "card {..v} \<le> card B"
      using fin card_mono by blast
    with v(2) show False
      by simp
  qed
  then obtain i where "i < v" "i \<notin> B"
    by blast
  moreover have "v < N"
    using v(1) sub by auto
  ultimately show "\<exists>i j. i < j \<and> j < N \<and> i \<notin> B \<and> j \<in> B"
    using v(1) by blast
next
  have fin: "finite B"
    using sub finite_subset by blast
  assume "\<exists>i j. i < j \<and> j < N \<and> i \<notin> B \<and> j \<in> B"
  then obtain i j where ij: "i < j" "i \<notin> B" "j \<in> B"
    by blast
  show "\<exists>v \<in> B. card B \<le> v"
  proof (rule ccontr)
    assume "\<not> (\<exists>v \<in> B. card B \<le> v)"
    then have "B \<subseteq> {..<card B}"
      by auto
    then have "B = {..<card B}"
      by (simp add: card_subset_eq)
    with ij show False
      by (metis lessThan_iff less_trans)
  qed
qed

lemma initial_segment_eq:
  fixes B :: "nat set"
  assumes "finite B" and "\<not> (\<exists>v \<in> B. card B \<le> v)"
  shows "B = {..<card B}"
proof -
  have "B \<subseteq> {..<card B}"
    using assms(2) by auto
  then show ?thesis
    by (simp add: card_subset_eq)
qed

lemma default_header_cases:
  assumes res: "buildReflectTagIndexCache T True = Inr ri"
    and d: "distinct (map fst run)" and m: "map_of run = map_of ri"
  defines "B \<equiv> {k. k < length T \<and> is_bound True (T ! k)}"
  shows "length run = length (filter (is_bound True) T)"
    and "length run = card B"
    and "default_header run = Inl IndexOutOfRange \<longleftrightarrow> (\<exists>v \<in> B. card B \<le> v)"
    and "default_header run = Inl IndexOutOfRange \<or>
         default_header run = Inr (map (field_name True) (filter (is_bound True) T))"
proof -
  have dri: "distinct (map fst ri)"
    using res by (rule resolved_distinct)
  have s: "set run = set ri" and len: "length run = length ri"
    using same_map_same_entries [OF d dri m] by simp_all
  have idx: "map snd ri = filter (\<lambda>k. is_bound True (T ! k)) [0..<length T]"
    using res by (rule resolved_indexes)
  have names: "map fst ri = map (field_name True) (filter (is_bound True) T)"
    using res by (rule resolved_names)
  have setB: "snd ` set ri = B"
    using arg_cong [OF idx, of set] by (auto simp: B_def)
  have dsnd: "distinct (map snd ri)"
    unfolding idx by simp
  have cardB: "card B = length ri"
    using distinct_card [OF dsnd] setB by simp
  show "length run = length (filter (is_bound True) T)"
    using len arg_cong [OF names, of length] by simp
  show "length run = card B"
    using len cardB by simp
  have panic_iff: "(\<exists>e \<in> set run. length run \<le> snd e) \<longleftrightarrow> (\<exists>v \<in> B. card B \<le> v)"
    unfolding s len cardB [symmetric] setB [symmetric] by auto
  show "default_header run = Inl IndexOutOfRange \<longleftrightarrow> (\<exists>v \<in> B. card B \<le> v)"
    unfolding default_header_def default_header_loop_eq using panic_iff by simp
  show "default_header run = Inl IndexOutOfRange \<or>
        default_header run = Inr (map (field_name True) (filter (is_bound True) T))"
  proof (cases "\<exists>v \<in> B. card B \<le> v")
    case True
    then show ?thesis
      unfolding default_header_def default_header_loop_eq using panic_iff by simp
  next
    case False
    have "finite B"
      by (simp add: B_def)
    then have B: "B = {..<length ri}"
      using initial_segment_eq [OF _ False] cardB by simp
    have "sorted (map snd ri)"
      unfolding idx by (simp add: sorted_wrt_filter)
    moreover have "set (map snd ri) = set [0..<length ri]"
      using setB B by (simp add: atLeast0LessThan)
    ultimately have upto: "map snd ri = [0..<length ri]"
      using dsnd by (intro sorted_distinct_set_unique) simp_all
    let ?r = "fold (\<lambda>(n, v) h. h[v := n]) run (replicate (length run) [])"
    have "distinct (map snd run)"
    proof (rule card_distinct)
      have "set (map snd run) = B"
        using s setB by simp
      then show "card (set (map snd run)) = length (map snd run)"
        using cardB len by simp
    qed
    have "?r = map fst ri"
    proof (rule nth_equalityI)
      show "length ?r = length (map fst ri)"
        using len by simp
      fix k assume "k < length ?r"
      then have k: "k < length ri"
        using len by simp
      then have "snd (ri ! k) = k"
        using arg_cong [OF upto, of "\<lambda>xs. xs ! k"] by simp
      then have "(fst (ri ! k), k) \<in> set run"
        using k s by (metis nth_mem prod.collapse)
      then have "?r ! k = fst (ri ! k)"
        using \<open>distinct (map snd run)\<close> k len by (intro fold_update_nth) simp_all
      then show "?r ! k = map fst ri ! k"
        using k by simp
    qed
    then have "default_header run = Inr (map fst ri)"
      unfolding default_header_def default_header_loop_eq using panic_iff False by simp
    then show ?thesis
      using names by simp
  qed
qed

text \<open>
  Claim C9. Without an explicit order, \<^verbatim>\<open>NewFileWriter\<close> makes a slice as long as the
  resolved write map and stores every write-name at its struct-field index. Let the type
  resolve to the write map \<open>ri\<close>, and let \<open>run\<close> list that map in the order the
  \<^verbatim>\<open>range\<close> loop sees it. The slice is as long as the number of write-bound fields. The
  loop indexes past its end exactly when some field that is not write-bound (untagged, or
  tagged with an empty or \<^verbatim>\<open>-\<close> write-name) is declared before a write-bound one; it
  stays in bounds exactly when the write-bound fields are the fields \<open>0\<close> to \<open>n - 1\<close>, and
  then the order built is the write-names in declaration order. In the first case both
  versions of \<^verbatim>\<open>NewFileWriter\<close> panic.
\<close>

theorem default_output_order_in_bounds_iff:
  "buildReflectTagIndexCache T True = Inr ri \<Longrightarrow>
   distinct (map fst run) \<Longrightarrow> map_of run = map_of ri \<Longrightarrow>
     length run = length (filter (is_bound True) T) \<and>
     (default_header run = Inl IndexOutOfRange \<longleftrightarrow>
        (\<exists>i j. i < j \<and> j < length T \<and> \<not> is_bound True (T ! i) \<and> is_bound True (T ! j))) \<and>
     (default_header run \<noteq> Inl IndexOutOfRange \<longleftrightarrow>
        (\<forall>k<length T. is_bound True (T ! k) \<longleftrightarrow> k < length run)) \<and>
     (default_header run = Inl IndexOutOfRange \<or>
      default_header run = Inr (map (field_name True) (filter (is_bound True) T))) \<and>
     (open_error os path = None \<and>
      (\<exists>i j. i < j \<and> j < length T \<and> \<not> is_bound True (T ! i) \<and> is_bound True (T ! j)) \<longrightarrow>
        (outputHeader (apply_opts options DefaultWriterOption) = None \<longrightarrow>
           fst (NewFileWriter os T L path options) = Inl (Panic IndexOutOfRange)) \<and>
        fst (NewFileWriter_sort os T L path None) = Inl (Panic IndexOutOfRange))"
proof -
  assume res: "buildReflectTagIndexCache T True = Inr ri"
    and d: "distinct (map fst run)" and m: "map_of run = map_of ri"
  define B where "B = {k. k < length T \<and> is_bound True (T ! k)}"
  define gap where "gap \<longleftrightarrow> (\<exists>i j. i < j \<and> j < length T \<and> \<not> is_bound True (T ! i) \<and> is_bound True (T ! j))"
  note dh = default_header_cases [OF res d m, folded B_def]
  have sub: "B \<subseteq> {..<length T}"
    by (auto simp: B_def)
  have "(\<exists>i j. i < j \<and> j < length T \<and> i \<notin> B \<and> j \<in> B) \<longleftrightarrow> gap"
    unfolding gap_def B_def by auto
  then have seg: "(\<exists>v \<in> B. card B \<le> v) \<longleftrightarrow> gap"
    using initial_segment_iff [OF sub] by simp
  have panic: "default_header run = Inl IndexOutOfRange \<longleftrightarrow> gap"
    using dh(3) seg by simp
  have exact: "default_header run \<noteq> Inl IndexOutOfRange \<longleftrightarrow>
        (\<forall>k<length T. is_bound True (T ! k) \<longleftrightarrow> k < length run)"
  proof
    assume "default_header run \<noteq> Inl IndexOutOfRange"
    then have "\<not> (\<exists>v \<in> B. card B \<le> v)"
      using dh(3) by simp
    moreover have "finite B"
      using sub finite_subset by blast
    ultimately have "B = {..<length run}"
      using initial_segment_eq [of B] dh(2) by simp
    then show "\<forall>k<length T. is_bound True (T ! k) \<longleftrightarrow> k < length run"
      unfolding B_def by auto
  next
    assume a: "\<forall>k<length T. is_bound True (T ! k) \<longleftrightarrow> k < length run"
    have "\<not> (\<exists>v \<in> B. card B \<le> v)"
    proof
      assume "\<exists>v \<in> B. card B \<le> v"
      then obtain v where "v \<in> B" "card B \<le> v"
        by blast
      then show False
        using a dh(2) unfolding B_def by auto
    qed
    then show "default_header run \<noteq> Inl IndexOutOfRange"
      using dh(3) by simp
  qed
  have own: "default_header ri = Inl IndexOutOfRange \<longleftrightarrow> gap"
    using default_header_cases(3) [OF res resolved_distinct [OF res] refl, folded B_def] seg
    by simp
  have at_open: "(outputHeader (apply_opts options DefaultWriterOption) = None \<longrightarrow>
           fst (NewFileWriter os T L path options) = Inl (Panic IndexOutOfRange)) \<and>
        fst (NewFileWriter_sort os T L path None) = Inl (Panic IndexOutOfRange)"
    if "open_error os path = None" and gap
    using that own res
    by (simp add: NewFileWriter_def NewFileWriter_sort_def os_OpenFile_def Let_def slice_def)
  show ?thesis
    using dh(1) panic exact dh(4) at_open unfolding gap_def by blast
qed

lemmas tag_defs = is_bound_def field_name_def resolved_name_def

text \<open>
  \<open>Padded\<close> declares an untagged field before the two tagged ones: the write map holds
  indexes 1 and 2, the slice has length 2, and the loop panics. For \<open>Person\<close> the loop
  gives \<^verbatim>\<open>id,name\<close>, also when it meets \<^verbatim>\<open>name\<close> first.
\<close>

theorem default_output_order_witness:
  "buildReflectTagIndexCache Padded True = Inr [(''id'', 1), (''name'', 2)] \<and>
   distinct (map fst [(''name'', 2 :: nat), (''id'', 1)]) \<and>
   map_of [(''name'', 2), (''id'', 1)] = map_of [(''id'', 1), (''name'', 2 :: nat)] \<and>
   \<not> is_bound True (Padded ! 0) \<and> is_bound True (Padded ! 1) \<and>
   default_header [(''name'', 2), (''id'', 1)] = Inl IndexOutOfRange \<and>
   fst (NewFileWriter quiet_host Padded no_float_time ''out.csv'' []) = Inl (Panic IndexOutOfRange) \<and>
   fst (NewFileWriter_sort quiet_host Padded no_float_time ''out.csv'' None)
     = Inl (Panic IndexOutOfRange) \<and>
   buildReflectTagIndexCache Person True = Inr [(''id'', 0), (''name'', 1)] \<and>
   default_header [(''name'', 1), (''id'', 0)] = Inr [''id'', ''name'']"
proof -
  have a: "buildReflectTagIndexCache Padded True = Inr [(''id'', 1), (''name'', 2)]"
    by (simp add: buildReflectTagIndexCache_def Padded_def Person_def)
  have b: "distinct (map fst [(''name'', 2 :: nat), (''id'', 1)])"
    by simp
  have c: "map_of [(''name'', 2), (''id'', 1)] = map_of [(''id'', 1), (''name'', 2 :: nat)]"
    by (rule ext) simp
  have g0: "\<not> is_bound True (Padded ! 0)" and g1: "is_bound True (Padded ! 1)"
    by (simp_all add: tag_defs Padded_def Person_def)
  have gap: "\<exists>i j. i < j \<and> j < length Padded \<and> \<not> is_bound True (Padded ! i) \<and> is_bound True (Padded ! j)"
  proof -
    have "(0 :: nat) < 1 \<and> 1 < length Padded \<and> \<not> is_bound True (Padded ! 0) \<and> is_bound True (Padded ! 1)"
      using g0 g1 by (simp add: Padded_def Person_def)
    then show ?thesis
      by blast
  qed
  have o: "open_error quiet_host ''out.csv'' = None"
    by (simp add: quiet_host_def)
  have n: "outputHeader (apply_opts [] DefaultWriterOption) = None"
    by (simp add: DefaultWriterOption_def)
  note padded = default_output_order_in_bounds_iff
      [OF a b c, where os = quiet_host and path = "''out.csv''" and L = no_float_time
         and options = "[]"]
  have p1: "default_header [(''name'', 2), (''id'', 1)] = Inl IndexOutOfRange"
    using padded gap by blast
  have p2: "fst (NewFileWriter quiet_host Padded no_float_time ''out.csv'' []) = Inl (Panic IndexOutOfRange)"
    using padded gap o n by blast
  have p3: "fst (NewFileWriter_sort quiet_host Padded no_float_time ''out.csv'' None)
     = Inl (Panic IndexOutOfRange)"
    using padded gap o by blast
  have a': "buildReflectTagIndexCache Person True = Inr [(''id'', 0), (''name'', 1)]"
    by (simp add: buildReflectTagIndexCache_def Person_def)
  have b': "distinct (map fst [(''name'', 1 :: nat), (''id'', 0)])"
    by simp
  have c': "map_of [(''name'', 1), (''id'', 0)] = map_of [(''id'', 0), (''name'', 1 :: nat)]"
    by (rule ext) simp
  have exact: "\<forall>k<length Person. is_bound True (Person ! k) \<longleftrightarrow> k < length [(''name'', 1 :: nat), (''id'', 0)]"
    by (simp add: tag_defs Person_def All_less_Suc)
  have names: "map (field_name True) (filter (is_bound True) Person) = [''id'', ''name'']"
    by (simp add: tag_defs Person_def)
  note person = default_output_order_in_bounds_iff
      [OF a' b' c', where os = quiet_host and path = "''out.csv''" and L = no_float_time
         and options = "[]"]
  have "default_header [(''name'', 1), (''id'', 0)] \<noteq> Inl IndexOutOfRange"
    using person exact by blast
  then have p4: "default_header [(''name'', 1), (''id'', 0)] = Inr [''id'', ''name'']"
    using person names by simp
  show ?thesis
    by (intro conjI) (fact a b c g0 g1 p1 p2 p3 a' p4)+
qed

subsection \<open>Integers and their decimal text\<close>

text \<open>
  \<^verbatim>\<open>strconv.FormatInt\<close> and \<^verbatim>\<open>strconv.FormatUint\<close> print a number that
  \<^verbatim>\<open>strconv.ParseInt\<close> and \<^verbatim>\<open>strconv.ParseUint\<close> read back, at every width that
  holds it.
\<close>

lemma digit_char_cases:
  fixes d :: nat
  assumes "d < 10"
  shows "d = 0 \<or> d = 1 \<or> d = 2 \<or> d = 3 \<or> d = 4 \<or> d = 5 \<or> d = 6 \<or> d = 7 \<or> d = 8 \<or> d = 9"
  using assms by arith

lemma digit_char_value:
  assumes "d < 10"
  shows "isDigit (digit_char d) \<and> (of_char (digit_char d) :: nat) - 48 = d"
  using digit_char_cases [OF assms] by (auto simp: digit_char_def isDigit_def)

lemma parse_digits_append:
  "parse_digits M n (xs @ ys) =
     (case parse_digits M n xs of Inl e \<Rightarrow> Inl e | Inr m \<Rightarrow> parse_digits M m ys)"
  by (induction xs arbitrary: n) (auto simp: Let_def)

lemma parse_digits_FormatUint:
  "k \<le> M \<Longrightarrow> parse_digits M 0 (FormatUint k) = Inr k"
proof (induction k rule: FormatUint.induct)
  case (1 n)
  show ?case
  proof (cases "n < 10")
    case True
    then show ?thesis
      using "1.prems" digit_char_value [of n]
      by (subst FormatUint.simps) (simp add: Let_def)
  next
    case False
    have "n div 10 \<le> M"
      using "1.prems" by (meson div_le_dividend le_trans)
    then have ih: "parse_digits M 0 (FormatUint (n div 10)) = Inr (n div 10)"
      using "1.IH" False by simp
    have d: "isDigit (digit_char (n mod 10))" "(of_char (digit_char (n mod 10)) :: nat) - 48 = n mod 10"
      using digit_char_value [of "n mod 10"] by simp_all
    have "n div 10 * 10 + n mod 10 = n"
      by simp
    then show ?thesis
      using False ih d "1.prems"
      by (subst FormatUint.simps) (simp add: parse_digits_append Let_def)
  qed
qed

lemma FormatUint_nonempty: "FormatUint n \<noteq> []"
  by (subst FormatUint.simps) simp

lemma hd_FormatUint_digit: "isDigit (hd (FormatUint n))"
proof (induction n rule: FormatUint.induct)
  case (1 n)
  show ?case
  proof (cases "n < 10")
    case True
    then show ?thesis
      using digit_char_value [of n] by (subst FormatUint.simps) simp
  next
    case False
    then show ?thesis
      using "1.IH" FormatUint_nonempty [of "n div 10"]
      by (subst FormatUint.simps) simp
  qed
qed

lemma hd_FormatUint_no_sign: "hd (FormatUint n) \<noteq> CHR ''-'' \<and> hd (FormatUint n) \<noteq> CHR ''+''"
  using hd_FormatUint_digit [of n] by (auto simp: isDigit_def)

lemma ParseUint_FormatUint:
  "n < 2 ^ b \<Longrightarrow> ParseUint (FormatUint n) b = Inr n"
  by (simp add: ParseUint_def FormatUint_nonempty parse_digits_FormatUint)

lemma ParseInt_FormatInt:
  assumes "0 < b" and "- (2 ^ (b - 1)) \<le> i" and "i < 2 ^ (b - 1)"
  shows "ParseInt (FormatInt i) b = Inr i"
proof -
  have pow: "(2 :: nat) ^ b = 2 * 2 ^ (b - 1)"
    using assms(1) by (cases b) simp_all
  show ?thesis
  proof (cases "i < 0")
    case True
    let ?n = "nat (- i)"
    have le: "?n \<le> 2 ^ (b - 1)"
      using assms(2) True by (simp add: nat_le_iff)
    have "(2 :: nat) ^ (b - 1) < 2 ^ b"
      using pow by simp
    with le have "?n < 2 ^ b"
      by (rule le_less_trans)
    then have "ParseUint (FormatUint ?n) b = Inr ?n"
      by (rule ParseUint_FormatUint)
    then show ?thesis
      using True le by (simp add: ParseInt_def FormatInt_def Let_def)
  next
    case False
    let ?n = "nat i"
    have lt: "?n < 2 ^ (b - 1)"
      using assms(3) False by (simp add: nat_less_iff)
    have "(2 :: nat) ^ (b - 1) < 2 ^ b"
      using pow by simp
    with lt have "?n < 2 ^ b"
      by (rule less_trans)
    then have "ParseUint (FormatUint ?n) b = Inr ?n"
      by (rule ParseUint_FormatUint)
    then show ?thesis
      using False lt hd_FormatUint_no_sign [of ?n] FormatUint_nonempty [of ?n]
      by (simp add: ParseInt_def FormatInt_def Let_def)
  qed
qed

lemma FormatInt_nonempty: "FormatInt i \<noteq> []"
  by (simp add: FormatInt_def FormatUint_nonempty)

subsection \<open>One cell through the write table and a read table\<close>

lemmas write_converter_defs = wdc_intConversion_def wdc_uintConversion_def wdc_floatConversion_def
  wdc_stringConversion_def wdc_boolConversion_def wdc_sqlNullStringConversion_def
  wdc_sqlNullInt64Conversion_def wdc_sqlNullInt32Conversion_def wdc_sqlNullInt16Conversion_def
  wdc_sqlNullTimeConversion_def wdc_timeConversion_def wdc_sqlNullFloat64Conversion_def
  wdc_sqlNullBoolConversion_def

lemmas shared_converter_defs = sqlNullInt64Conversion_def sqlNullInt32Conversion_def
  sqlNullInt16Conversion_def stringConversion_def sqlNullStringConversion_def Set_field_def

lemmas dc_converter_defs = dc_intConversion_def dc_uintConversion_def dc_floatConversion_def
  dc_sqlNullFloat64Conversion_def dc_timeConversion_def dc_sqlNullTimeConversion_def

lemmas rdc_converter_defs = rdc_intConversion_def rdc_uintConversion_def rdc_floatConversion_def
  rdc_sqlNullFloat64Conversion_def rdc_timeConversion_def rdc_sqlNullTimeConversion_def
  rdc_boolConversion_def rdc_sqlNullBoolConversion_def

lemma parse_formats_first:
  "time_Parse L format s = Inr t \<Longrightarrow> parse_formats L (format # formats) s = Some t"
  by simp

lemma strings_ToLower_FormatBool: "is_true_text (strings_ToLower (FormatBool b)) = b"
  by (cases b) (simp_all add: FormatBool_def strings_ToLower_def toLower_def is_true_text_def)

lemma FormatBool_nonempty: "FormatBool b \<noteq> []"
  by (simp add: FormatBool_def)

lemma int_round_trip:
  assumes "int_bits tp = Some b" and "- (2 ^ (b - 1)) \<le> i" and "i < 2 ^ (b - 1)"
  shows "ParseInt (FormatInt i) 64 = Inr i \<and> OverflowInt tp i = Inr False"
proof -
  have b: "b = 64 \<or> b = 32 \<or> b = 16 \<or> b = 8"
    using assms(1) by (auto simp: int_bits_def split: gotype.splits)
  have "(2 :: int) ^ (b - 1) \<le> 2 ^ (64 - 1)"
    using b by (intro power_increasing) auto
  then have "ParseInt (FormatInt i) 64 = Inr i"
    using assms(2,3) by (intro ParseInt_FormatInt) auto
  moreover have "OverflowInt tp i = Inr False"
    using assms by (simp add: OverflowInt_def)
  ultimately show ?thesis by simp
qed

lemma uint_round_trip:
  assumes "uint_bits tp = Some b" and "n < 2 ^ b"
  shows "ParseUint (FormatUint n) 64 = Inr n \<and> OverflowUint tp n = Inr False"
proof -
  have b: "b = 64 \<or> b = 32 \<or> b = 16 \<or> b = 8"
    using assms(1) by (auto simp: uint_bits_def split: gotype.splits)
  have "(2 :: nat) ^ b \<le> 2 ^ 64"
    using b by (intro power_increasing) auto
  then have "ParseUint (FormatUint n) 64 = Inr n"
    using assms(2) by (intro ParseUint_FormatUint) auto
  moreover have "OverflowUint tp n = Inr False"
    using assms by (simp add: OverflowUint_def)
  ultimately show ?thesis by simp
qed

lemma covered_int_kinds:
  assumes "int_bits tp = Some b" and "buildWriteDefaultConverters L tp \<noteq> None"
  shows "buildWriteDefaultConverters L tp = Some wdc_intConversion \<and>
         buildDefaultConverts L tp = Some dc_intConversion \<and>
         buildReadDefaultConverters L tp = Some rdc_intConversion"
  using assms
  by (cases tp) (simp_all add: int_bits_def buildWriteDefaultConverters_def
      buildDefaultConverts_def buildReadDefaultConverters_def)

lemma covered_uint_kinds:
  assumes "uint_bits tp = Some b" and "buildWriteDefaultConverters L tp \<noteq> None"
  shows "buildWriteDefaultConverters L tp = Some wdc_uintConversion \<and>
         buildDefaultConverts L tp = Some dc_uintConversion \<and>
         buildReadDefaultConverters L tp = Some rdc_uintConversion"
  using assms
  by (cases tp) (simp_all add: uint_bits_def buildWriteDefaultConverters_def
      buildDefaultConverts_def buildReadDefaultConverters_def)

lemma cell_round_trip_int:
  assumes "has_type tp (VInt i)" and "buildWriteDefaultConverters L tp \<noteq> None"
  shows "write_default L tp (VInt i) = Inr (FormatInt i) \<and>
         read_default (buildDefaultConverts L) tp (FormatInt i) = Inr (VInt i) \<and>
         read_default (buildReadDefaultConverters L) tp (FormatInt i) = Inr (VInt i)"
proof -
  from assms(1) obtain b where b: "int_bits tp = Some b"
    and r: "- (2 ^ (b - 1)) \<le> i" "i < 2 ^ (b - 1)"
    by (auto simp: has_type_def split: option.splits)
  note t = covered_int_kinds [OF b assms(2)]
  note p = int_round_trip [OF b r]
  show ?thesis
    using t p
    by (simp add: write_default_def read_default_def wdc_intConversion_def dc_intConversion_def
        rdc_intConversion_def FormatInt_nonempty)
qed

lemma cell_round_trip_uint:
  assumes "has_type tp (VUint n)" and "buildWriteDefaultConverters L tp \<noteq> None"
  shows "write_default L tp (VUint n) = Inr (FormatUint n) \<and>
         read_default (buildDefaultConverts L) tp (FormatUint n) = Inr (VUint n) \<and>
         read_default (buildReadDefaultConverters L) tp (FormatUint n) = Inr (VUint n)"
proof -
  from assms(1) obtain b where b: "uint_bits tp = Some b" and r: "n < 2 ^ b"
    by (auto simp: has_type_def split: option.splits)
  note t = covered_uint_kinds [OF b assms(2)]
  note p = uint_round_trip [OF b r]
  show ?thesis
    using t p
    by (simp add: write_default_def read_default_def wdc_uintConversion_def dc_uintConversion_def
        rdc_uintConversion_def FormatUint_nonempty)
qed

lemmas table_defs = buildWriteDefaultConverters_def buildDefaultConverts_def
  buildReadDefaultConverters_def write_default_def read_default_def zero_value_def

lemma cell_round_trip_float:
  assumes "has_type tp (VFloat x)" and "float_faithful L tp x"
  shows "write_default L tp (VFloat x) = Inr (FormatFloat L x) \<and>
         read_default (buildDefaultConverts L) tp (FormatFloat L x) = Inr (VFloat x) \<and>
         read_default (buildReadDefaultConverters L) tp (FormatFloat L x) = Inr (VFloat x)"
  using assms
  by (auto simp: has_type_def float_faithful_def table_defs wdc_floatConversion_def
      dc_floatConversion_def rdc_floatConversion_def OverflowFloat_def SetFloat_def)

lemma cell_round_trip_string:
  assumes "has_type tp (VString s)"
  shows "write_default L tp (VString s) = Inr s \<and>
         read_default (buildDefaultConverts L) tp s = Inr (VString s) \<and>
         read_default (buildReadDefaultConverters L) tp s = Inr (VString s)"
  using assms
  by (simp add: has_type_def table_defs wdc_stringConversion_def stringConversion_def)

lemma cell_round_trip_bool:
  assumes "has_type tp (VBool b)"
  shows "write_default L tp (VBool b) = Inr (FormatBool b) \<and>
         read_default (buildReadDefaultConverters L) tp (FormatBool b) = Inr (VBool b)"
  using assms
  by (simp add: has_type_def table_defs wdc_boolConversion_def rdc_boolConversion_def
      FormatBool_nonempty strings_ToLower_FormatBool)

lemma parse_formats_DateTime:
  assumes "time_faithful L t"
  shows "parse_formats L dc_formats (time_Format L t DateTime) = Some t"
    and "parse_formats L rdc_formats (time_Format L t DateTime) = Some t"
  using assms by (simp_all add: time_faithful_def dc_formats_def rdc_formats_def)

lemma cell_round_trip_time:
  assumes "has_type tp (VTime t)" and "time_faithful L t"
  shows "write_default L tp (VTime t) = Inr (time_Format L t DateTime) \<and>
         read_default (buildDefaultConverts L) tp (time_Format L t DateTime) = Inr (VTime t) \<and>
         read_default (buildReadDefaultConverters L) tp (time_Format L t DateTime) = Inr (VTime t)"
  using assms parse_formats_DateTime [OF assms(2)]
  by (simp add: has_type_def table_defs wdc_timeConversion_def dc_timeConversion_def
      rdc_timeConversion_def Set_field_def time_faithful_def)

lemma cell_round_trip_NullString:
  assumes "has_type tp (VNullString s valid)" and "text_faithful L tp (VNullString s valid)"
  shows "\<exists>c. write_default L tp (VNullString s valid) = Inr c \<and>
           read_default (buildDefaultConverts L) tp c = Inr (VNullString s valid) \<and>
           read_default (buildReadDefaultConverters L) tp c = Inr (VNullString s valid)"
  using assms
  by (cases valid) (simp_all add: has_type_def text_faithful_def table_defs
      wdc_sqlNullStringConversion_def sqlNullStringConversion_def Set_field_def)

lemma cell_round_trip_NullInt64:
  assumes "has_type tp (VNullInt64 i valid)" and "text_faithful L tp (VNullInt64 i valid)"
  shows "\<exists>c. write_default L tp (VNullInt64 i valid) = Inr c \<and>
           read_default (buildDefaultConverts L) tp c = Inr (VNullInt64 i valid) \<and>
           read_default (buildReadDefaultConverters L) tp c = Inr (VNullInt64 i valid)"
proof (cases valid)
  case True
  have "ParseInt (FormatInt i) 64 = Inr i"
    using assms(1) by (intro ParseInt_FormatInt) (simp_all add: has_type_def)
  then show ?thesis
    using assms True
    by (simp add: has_type_def table_defs wdc_sqlNullInt64Conversion_def
        sqlNullInt64Conversion_def Set_field_def FormatInt_nonempty)
next
  case False
  then show ?thesis
    using assms
    by (simp add: has_type_def text_faithful_def table_defs wdc_sqlNullInt64Conversion_def
        sqlNullInt64Conversion_def)
qed

lemma cell_round_trip_NullInt32:
  assumes "has_type tp (VNullInt32 i valid)" and "text_faithful L tp (VNullInt32 i valid)"
  shows "\<exists>c. write_default L tp (VNullInt32 i valid) = Inr c \<and>
           read_default (buildDefaultConverts L) tp c = Inr (VNullInt32 i valid) \<and>
           read_default (buildReadDefaultConverters L) tp c = Inr (VNullInt32 i valid)"
proof (cases valid)
  case True
  have "ParseInt (FormatInt i) 32 = Inr i"
    using assms(1) by (intro ParseInt_FormatInt) (simp_all add: has_type_def)
  then show ?thesis
    using assms True
    by (simp add: has_type_def table_defs wdc_sqlNullInt32Conversion_def
        sqlNullInt32Conversion_def Set_field_def FormatInt_nonempty)
next
  case False
  then show ?thesis
    using assms
    by (simp add: has_type_def text_faithful_def table_defs wdc_sqlNullInt32Conversion_def
        sqlNullInt32Conversion_def)
qed

lemma cell_round_trip_NullInt16:
  assumes "has_type tp (VNullInt16 i valid)" and "text_faithful L tp (VNullInt16 i valid)"
  shows "\<exists>c. write_default L tp (VNullInt16 i valid) = Inr c \<and>
           read_default (buildDefaultConverts L) tp c = Inr (VNullInt16 i valid) \<and>
           read_default (buildReadDefaultConverters L) tp c = Inr (VNullInt16 i valid)"
proof (cases valid)
  case True
  have "ParseInt (FormatInt i) 16 = Inr i"
    using assms(1) by (intro ParseInt_FormatInt) (simp_all add: has_type_def)
  then show ?thesis
    using assms True
    by (simp add: has_type_def table_defs wdc_sqlNullInt16Conversion_def
        sqlNullInt16Conversion_def Set_field_def FormatInt_nonempty)
next
  case False
  then show ?thesis
    using assms
    by (simp add: has_type_def text_faithful_def table_defs wdc_sqlNullInt16Conversion_def
        sqlNullInt16Conversion_def)
qed

lemma cell_round_trip_NullTime:
  assumes "has_type tp (VNullTime t valid)" and "text_faithful L tp (VNullTime t valid)"
  shows "\<exists>c. write_default L tp (VNullTime t valid) = Inr c \<and>
           read_default (buildDefaultConverts L) tp c = Inr (VNullTime t valid) \<and>
           read_default (buildReadDefaultConverters L) tp c = Inr (VNullTime t valid)"
proof (cases valid)
  case True
  then have f: "time_faithful L t"
    using assms(2) by (simp add: text_faithful_def)
  show ?thesis
    using assms True f parse_formats_DateTime [OF f]
    by (simp add: has_type_def table_defs wdc_sqlNullTimeConversion_def
        dc_sqlNullTimeConversion_def rdc_sqlNullTimeConversion_def Set_field_def
        time_faithful_def)
next
  case False
  then show ?thesis
    using assms
    by (simp add: has_type_def text_faithful_def table_defs wdc_sqlNullTimeConversion_def
        dc_sqlNullTimeConversion_def rdc_sqlNullTimeConversion_def)
qed

lemma cell_round_trip_NullFloat64:
  assumes "has_type tp (VNullFloat64 x valid)" and "text_faithful L tp (VNullFloat64 x valid)"
  shows "\<exists>c. write_default L tp (VNullFloat64 x valid) = Inr c \<and>
           (valid \<or> read_default (buildDefaultConverts L) tp c = Inr (VNullFloat64 x valid)) \<and>
           read_default (buildReadDefaultConverters L) tp c = Inr (VNullFloat64 x valid)"
  using assms
  by (cases valid) (simp_all add: has_type_def text_faithful_def float_faithful_def table_defs
      wdc_sqlNullFloat64Conversion_def dc_sqlNullFloat64Conversion_def
      rdc_sqlNullFloat64Conversion_def Set_field_def)

lemma cell_round_trip_NullBool:
  assumes "has_type tp (VNullBool b valid)" and "text_faithful L tp (VNullBool b valid)"
  shows "\<exists>c. write_default L tp (VNullBool b valid) = Inr c \<and>
           read_default (buildReadDefaultConverters L) tp c = Inr (VNullBool b valid)"
  using assms
  by (cases valid) (simp_all add: has_type_def text_faithful_def table_defs
      wdc_sqlNullBoolConversion_def rdc_sqlNullBoolConversion_def Set_field_def
      FormatBool_nonempty strings_ToLower_FormatBool)

text \<open>The newer table reads back every faithful value of a covered type.\<close>

lemma cell_round_trip_rdc:
  assumes "has_type tp v" and "text_faithful L tp v"
    and "buildWriteDefaultConverters L tp \<noteq> None"
  shows "\<exists>c. write_default L tp v = Inr c \<and>
           read_default (buildReadDefaultConverters L) tp c = Inr v"
proof (cases v)
  case (VInt i)
  then show ?thesis using cell_round_trip_int assms by blast
next
  case (VUint n)
  then show ?thesis using cell_round_trip_uint assms by blast
next
  case (VFloat x)
  then show ?thesis using cell_round_trip_float [of tp x L] assms by (simp add: text_faithful_def)
next
  case (VString s)
  then show ?thesis using cell_round_trip_string assms by blast
next
  case (VBool b)
  then show ?thesis using cell_round_trip_bool assms by blast
next
  case (VTime t)
  then show ?thesis using cell_round_trip_time [of tp t L] assms by (simp add: text_faithful_def)
next
  case (VNullString s valid)
  then show ?thesis using cell_round_trip_NullString assms by blast
next
  case (VNullInt64 i valid)
  then show ?thesis using cell_round_trip_NullInt64 assms by blast
next
  case (VNullInt32 i valid)
  then show ?thesis using cell_round_trip_NullInt32 assms by blast
next
  case (VNullInt16 i valid)
  then show ?thesis using cell_round_trip_NullInt16 assms by blast
next
  case (VNullTime t valid)
  then show ?thesis using cell_round_trip_NullTime assms by blast
next
  case (VNullFloat64 x valid)
  then show ?thesis using cell_round_trip_NullFloat64 assms by blast
next
  case (VNullBool b valid)
  then show ?thesis using cell_round_trip_NullBool assms by blast
next
  case (VOther s)
  then show ?thesis using assms(2) by (simp add: text_faithful_def)
qed

text \<open>
  The table \<^verbatim>\<open>NewFileReader\<close> installs reads back every faithful value of a type it
  covers, a valid \<^verbatim>\<open>NullFloat64\<close> apart.
\<close>

lemma cell_round_trip_dc:
  assumes "has_type tp v" and "text_faithful L tp v"
    and "buildWriteDefaultConverters L tp \<noteq> None" and "buildDefaultConverts L tp \<noteq> None"
    and "\<And>x. v \<noteq> VNullFloat64 x True"
  shows "\<exists>c. write_default L tp v = Inr c \<and>
           read_default (buildDefaultConverts L) tp c = Inr v"
proof (cases v)
  case (VInt i)
  then show ?thesis using cell_round_trip_int assms by blast
next
  case (VUint n)
  then show ?thesis using cell_round_trip_uint assms by blast
next
  case (VFloat x)
  then show ?thesis using cell_round_trip_float [of tp x L] assms by (simp add: text_faithful_def)
next
  case (VString s)
  then show ?thesis using cell_round_trip_string assms by blast
next
  case (VBool b)
  then show ?thesis using assms(1,4) by (simp add: has_type_def buildDefaultConverts_def)
next
  case (VTime t)
  then show ?thesis using cell_round_trip_time [of tp t L] assms by (simp add: text_faithful_def)
next
  case (VNullString s valid)
  then show ?thesis using cell_round_trip_NullString assms by blast
next
  case (VNullInt64 i valid)
  then show ?thesis using cell_round_trip_NullInt64 assms by blast
next
  case (VNullInt32 i valid)
  then show ?thesis using cell_round_trip_NullInt32 assms by blast
next
  case (VNullInt16 i valid)
  then show ?thesis using cell_round_trip_NullInt16 assms by blast
next
  case (VNullTime t valid)
  then show ?thesis using cell_round_trip_NullTime assms by blast
next
  case (VNullFloat64 x valid)
  then have "\<not> valid"
    using assms(5) by auto
  then show ?thesis using VNullFloat64 cell_round_trip_NullFloat64 assms(1,2) by blast
next
  case (VNullBool b valid)
  then show ?thesis using assms(1,4) by (simp add: has_type_def buildDefaultConverts_def)
next
  case (VOther s)
  then show ?thesis using assms(2) by (simp add: text_faithful_def)
qed

subsection \<open>The csv reader on the text of the csv writer\<close>

text \<open>
  With the comma as delimiter and no carriage return in a cell, the lines the reader takes
  from the text of a record are that text, written without \<^verbatim>\<open>UseCRLF\<close>.
\<close>

lemma char_of_bits:
  "char_of (n :: nat) = Char (odd n) (odd (n div 2)) (odd (n div 4)) (odd (n div 8))
                 (odd (n div 16)) (odd (n div 32)) (odd (n div 64)) (odd (n div 128))"
  by (simp add: char_of_def bit_iff_odd_drop_bit drop_bit_eq_div)

lemma comma_byte: "utf8_EncodeRune 44 = '',''" "char_of (44 :: nat) = CHR '',''"
  by (simp_all add: utf8_EncodeRune_def char_of_bits)

lemma normalize_lines_step:
  "c \<noteq> CR \<Longrightarrow> normalize_lines (c # s) = c # normalize_lines s"
  "CR \<noteq> c \<Longrightarrow> normalize_lines (c # s) = c # normalize_lines s"
  "normalize_lines (CR # LF # s) = LF # normalize_lines s"
  by (cases s; auto)+

lemma normalize_lines_append:
  "CR \<notin> set s \<Longrightarrow> normalize_lines (s @ t) = s @ normalize_lines t"
  by (induction s) (simp_all add: normalize_lines_step)

lemma plain_field:
  assumes "\<not> fieldNeedsQuotes 44 field"
  shows "\<forall>c \<in> set field. c \<noteq> LF \<and> c \<noteq> CR \<and> c \<noteq> DQ \<and> c \<noteq> CHR '',''"
  using assms
  by (auto simp: fieldNeedsQuotes_def comma_byte list_ex_iff split: if_splits)

lemma quoted_text_no_CR:
  "CR \<notin> set field \<Longrightarrow> normalize_lines (quoted_text crlf field @ DQ # t)
     = quoted_text False field @ DQ # normalize_lines t"
  by (cases crlf; induction field; auto simp: normalize_lines_step)

lemma csv_field_normal:
  assumes "CR \<notin> set field"
  shows "normalize_lines (csv_field 44 crlf field @ t) = csv_field 44 False field @ normalize_lines t"
proof (cases "fieldNeedsQuotes 44 field")
  case True
  then show ?thesis
    using assms by (simp add: csv_field_def quoted_text_no_CR normalize_lines_step)
next
  case False
  then show ?thesis
    using assms by (simp add: csv_field_def normalize_lines_append)
qed

lemma csv_fields_normal:
  assumes "\<forall>c \<in> set rec. CR \<notin> set c"
  shows "normalize_lines (csv_fields 44 crlf rec @ (if crlf then [CR, LF] else [LF]) @ t)
           = csv_fields 44 False rec @ LF # normalize_lines t"
  using assms
proof (induction rec)
  case Nil
  then show ?case by (simp add: normalize_lines_step)
next
  case (Cons field rest)
  show ?case
  proof (cases rest)
    case Nil
    then show ?thesis
      using Cons.prems csv_field_normal [of field crlf "(if crlf then [CR, LF] else [LF]) @ t"]
      by (cases crlf) (simp_all add: normalize_lines_step)
  next
    case (Cons g gs)
    then show ?thesis
      using Cons.prems Cons.IH
        csv_field_normal [of field crlf
          "'','' @ csv_fields 44 crlf rest @ (if crlf then [CR, LF] else [LF]) @ t"]
      by (cases crlf) (simp_all add: comma_byte normalize_lines_step)
  qed
qed

text \<open>
  The reader's loop on the text of a field, followed by a comma or by the end of the line,
  and on the text of a record: it gives the fields as they were written.
\<close>

lemma unquoted_field_plain:
  assumes "\<forall>c \<in> set field. c \<noteq> LF \<and> c \<noteq> DQ \<and> c \<noteq> CHR '',''"
  shows "unquoted_field (field @ t) acc dst = unquoted_field t (acc @ field) dst"
  using assms by (induction field arbitrary: acc) simp_all

lemma quoted_field_text:
  "quoted_field (quoted_text False field @ s) acc dst = quoted_field s (acc @ field) dst"
  by (induction field arbitrary: acc) simp_all

lemma parse_plain_field:
  assumes "\<not> fieldNeedsQuotes 44 field" and "t \<noteq> []" and "hd t = CHR '','' \<or> hd t = LF"
  shows "parse_field (field @ t) dst = unquoted_field t field dst"
proof -
  note p = plain_field [OF assms(1)]
  show ?thesis
  proof (cases field)
    case Nil
    then show ?thesis
      using assms(2,3) by (cases t) auto
  next
    case (Cons c cs)
    then have "c \<noteq> DQ"
      using p by simp
    then have "parse_field (field @ t) dst = unquoted_field (field @ t) [] dst"
      using Cons by simp
    then show ?thesis
      using unquoted_field_plain [of field t "[]" dst] p by simp
  qed
qed

lemma parse_csv_field_comma:
  "parse_field (csv_field 44 False field @ CHR '','' # t) dst = parse_field t (dst @ [field])"
proof (cases "fieldNeedsQuotes 44 field")
  case True
  then show ?thesis
    by (simp add: csv_field_def quoted_field_text)
next
  case False
  then show ?thesis
    using parse_plain_field [OF False, of "CHR '','' # t" dst] by (simp add: csv_field_def)
qed

lemma parse_csv_field_end:
  "parse_field (csv_field 44 False field @ LF # t) dst = (None, dst @ [field], t)"
proof (cases "fieldNeedsQuotes 44 field")
  case True
  then show ?thesis
    by (simp add: csv_field_def quoted_field_text)
next
  case False
  then show ?thesis
    using parse_plain_field [OF False, of "LF # t" dst] by (simp add: csv_field_def)
qed

lemma parse_csv_fields:
  "rec \<noteq> [] \<Longrightarrow> parse_field (csv_fields 44 False rec @ LF # t) dst = (None, dst @ rec, t)"
proof (induction rec arbitrary: dst)
  case Nil
  then show ?case by simp
next
  case (Cons field rest)
  show ?case
  proof (cases rest)
    case Nil
    then show ?thesis
      by (simp add: parse_csv_field_end)
  next
    case (Cons g gs)
    then show ?thesis
      using Cons.IH [of "dst @ [field]"] by (simp add: comma_byte parse_csv_field_comma)
  qed
qed

text \<open>
  The text of a record starts with a line feed only when the record has no cell or is a
  single empty cell; any other record is not passed over as an empty line. So a header
  and a row of the same length are read back as they were written.
\<close>

lemma csv_field_first:
  assumes "field \<noteq> []"
  shows "csv_field 44 False field \<noteq> [] \<and> hd (csv_field 44 False field) \<noteq> LF"
proof (cases "fieldNeedsQuotes 44 field")
  case True
  then show ?thesis
    by (simp add: csv_field_def)
next
  case False
  then show ?thesis
    using plain_field [OF False] assms by (cases field) (simp_all add: csv_field_def)
qed

lemma csv_fields_first:
  assumes "rec \<noteq> []" and "rec \<noteq> [[]]"
  shows "dropWhile (\<lambda>c. c = LF) (csv_fields 44 False rec @ LF # t) = csv_fields 44 False rec @ LF # t"
proof -
  obtain field rest where rec: "rec = field # rest"
    using assms(1) by (cases rec) auto
  have "\<exists>c s. csv_fields 44 False rec @ LF # t = c # s \<and> c \<noteq> LF"
  proof (cases "field = []")
    case True
    then obtain g gs where "rest = g # gs"
      using assms(2) rec by (cases rest) auto
    then show ?thesis
      using True rec by (simp add: csv_field_def fieldNeedsQuotes_def comma_byte)
  next
    case False
    obtain c s where cs: "csv_field 44 False field = c # s" "c \<noteq> LF"
      using csv_field_first [OF False] by (cases "csv_field 44 False field") auto
    then show ?thesis
      using rec by (cases rest) simp_all
  qed
  then show ?thesis
    by auto
qed

lemma csv_Reader_Read_record:
  assumes "rec \<noteq> []" and "rec \<noteq> [[]]" and "n = 0 \<or> n = length rec"
  shows "csv_Reader_Read \<lparr>pending = csv_fields 44 False rec @ LF # t, FieldsPerRecord = n\<rparr>
           = (Inr rec, \<lparr>pending = t, FieldsPerRecord = length rec\<rparr>)"
  using assms
  by (auto simp: csv_Reader_Read_def csv_fields_first parse_csv_fields Let_def)

lemma csv_reads_back:
  assumes "hdr \<noteq> []" and "hdr \<noteq> [[]]" and "row \<noteq> [[]]" and "length row = length hdr"
    and "\<forall>c \<in> set hdr. CR \<notin> set c" and "\<forall>c \<in> set row. CR \<notin> set c"
  shows "csv_Reader_Read (csv_NewReader (csv_bytes 44 crlf [hdr, row]))
           = (Inr hdr, \<lparr>pending = csv_fields 44 False row @ [LF], FieldsPerRecord = length hdr\<rparr>)"
    and "csv_Reader_Read \<lparr>pending = csv_fields 44 False row @ [LF], FieldsPerRecord = length hdr\<rparr>
           = (Inr row, \<lparr>pending = [], FieldsPerRecord = length hdr\<rparr>)"
proof -
  have row: "row \<noteq> []"
    using assms(1,4) by auto
  have "normalize_lines (csv_bytes 44 crlf [hdr, row])
          = csv_fields 44 False hdr @ LF # csv_fields 44 False row @ [LF]"
    using csv_fields_normal [OF assms(5), of crlf "csv_record 44 crlf row"]
      csv_fields_normal [OF assms(6), of crlf "[]"]
    by (simp add: csv_bytes_def csv_record_def)
  then show "csv_Reader_Read (csv_NewReader (csv_bytes 44 crlf [hdr, row]))
           = (Inr hdr, \<lparr>pending = csv_fields 44 False row @ [LF], FieldsPerRecord = length hdr\<rparr>)"
    using csv_Reader_Read_record [OF assms(1,2), of 0] by (simp add: csv_NewReader_def)
  show "csv_Reader_Read \<lparr>pending = csv_fields 44 False row @ [LF], FieldsPerRecord = length hdr\<rparr>
           = (Inr row, \<lparr>pending = [], FieldsPerRecord = length hdr\<rparr>)"
    using csv_Reader_Read_record [OF row assms(3), of "length hdr" "[]"] assms(4) by simp
qed

lemmas csv_defs = csv_bytes_def csv_record_def csv_field_def fieldNeedsQuotes_def
  starts_with_space_def space_prefixes_def utf8_EncodeRune_def char_of_bits
  csv_NewReader_def csv_Reader_Read_def

subsection \<open>The two loops over a record\<close>

text \<open>
  The writer's binder accepts a header whose names are distinct and all resolved, and
  maps each name to its position.
\<close>

lemma write_header_loop_Inr:
  assumes "write_header_loop cols i tf ni inn = Inr (ni', inn')"
  shows "(map_of ni' nm = Some p \<longleftrightarrow>
           map_of ni nm = Some p \<or> (\<exists>j<length cols. p = i + j \<and> cols ! j = nm)) \<and>
         (\<forall>j<length cols. map_of tf (cols ! j) \<noteq> None)"
  using assms
proof (induction cols arbitrary: i ni inn)
  case Nil
  then show ?case by simp
next
  case (Cons col cols)
  from Cons.prems have fresh: "map_of ni col = None" and known: "map_of tf col \<noteq> None"
    by (auto split: if_splits)
  then have run: "write_header_loop cols (Suc i) tf (AList.update col i ni) (AList.update i col inn)
                    = Inr (ni', inn')"
    using Cons.prems by simp
  note ih = Cons.IH [OF run]
  show ?case
    using ih fresh known
    by (auto simp: update_conv' Ex_less_Suc2 All_less_Suc2 split: if_splits)
qed

lemma write_bind_facts:
  assumes "buildWriteHeaderNameIndexCache hdr tf = Inr (ni, inn)"
  shows "map_of ni nm = Some p \<longleftrightarrow> p < length hdr \<and> hdr ! p = nm"
    and "j < length hdr \<Longrightarrow> map_of tf (hdr ! j) \<noteq> None"
  using write_header_loop_Inr [OF assms [unfolded buildWriteHeaderNameIndexCache_def], of nm p]
  by auto

text \<open>
  The loop of \<^verbatim>\<open>Write\<close> over any list that holds the resolved map: when every field
  converts, the row holds the text of each field at the position of its name, and the
  other positions are as before.
\<close>

lemma write_fields_step:
  assumes "customConverters doc = []" and "defaultConverters doc = buildWriteDefaultConverters L"
    and "map_of (headerIndex doc) nm = Some j" and "k < length tm" and "k < length T"
    and "write_default L (Type (T ! k)) (tm ! k) = Inr c" and "j < length row"
    and "IsExported (T ! k)"
  shows "write_fields doc T tm ((nm, k) # rest) row = write_fields doc T tm rest (row[j := c])"
  using assms by (simp add: write_default_def Let_def)

lemma write_fields_result:
  assumes custom: "customConverters doc = []"
    and table: "defaultConverters doc = buildWriteDefaultConverters L"
    and "distinct (map fst m)"
    and "\<forall>e \<in> set m. \<forall>e' \<in> set m.
           map_of (headerIndex doc) (fst e) \<noteq> None \<and>
           map_of (headerIndex doc) (fst e) = map_of (headerIndex doc) (fst e') \<longrightarrow> fst e = fst e'"
    and "\<forall>e \<in> set m.
           snd e < length tm \<and> snd e < length T \<and> IsExported (T ! snd e) \<and>
           write_default L (Type (T ! snd e)) (tm ! snd e) = Inr (cell (snd e)) \<and>
           (\<forall>j. map_of (headerIndex doc) (fst e) = Some j \<longrightarrow> j < length row)"
  shows "\<exists>row'. write_fields doc T tm m row = Inr row' \<and> length row' = length row \<and>
           (\<forall>e \<in> set m. \<forall>j. map_of (headerIndex doc) (fst e) = Some j \<longrightarrow> row' ! j = cell (snd e)) \<and>
           (\<forall>j. (\<forall>e \<in> set m. map_of (headerIndex doc) (fst e) \<noteq> Some j) \<longrightarrow> row' ! j = row ! j)"
  using assms(3-)
proof (induction m arbitrary: row)
  case Nil
  then show ?case by simp
next
  case (Cons e m)
  obtain nm k where e: "e = (nm, k)"
    by (cases e)
  have d: "distinct (map fst m)" and fresh: "nm \<notin> fst ` set m"
    using Cons.prems(1) e by auto
  have inj': "\<forall>e \<in> set m. \<forall>e' \<in> set m.
           map_of (headerIndex doc) (fst e) \<noteq> None \<and>
           map_of (headerIndex doc) (fst e) = map_of (headerIndex doc) (fst e') \<longrightarrow> fst e = fst e'"
  proof (intro ballI impI)
    fix a b assume "a \<in> set m" "b \<in> set m"
      and "map_of (headerIndex doc) (fst a) \<noteq> None \<and>
           map_of (headerIndex doc) (fst a) = map_of (headerIndex doc) (fst b)"
    then show "fst a = fst b"
      using Cons.prems(2) [rule_format, of a b] by (metis list.set_intros(2))
  qed
  have head: "k < length tm" "k < length T" "write_default L (Type (T ! k)) (tm ! k) = Inr (cell k)"
    "\<forall>j. map_of (headerIndex doc) nm = Some j \<longrightarrow> j < length row"
    and ex: "IsExported (T ! k)"
    using Cons.prems(3) e by auto
  show ?case
  proof (cases "map_of (headerIndex doc) nm")
    case None
    have good': "\<forall>e \<in> set m.
           snd e < length tm \<and> snd e < length T \<and> IsExported (T ! snd e) \<and>
           write_default L (Type (T ! snd e)) (tm ! snd e) = Inr (cell (snd e)) \<and>
           (\<forall>j. map_of (headerIndex doc) (fst e) = Some j \<longrightarrow> j < length row)"
      using Cons.prems(3) by simp
    obtain row' where r: "write_fields doc T tm m row = Inr row'" "length row' = length row"
      "\<forall>e \<in> set m. \<forall>j. map_of (headerIndex doc) (fst e) = Some j \<longrightarrow> row' ! j = cell (snd e)"
      "\<forall>j. (\<forall>e \<in> set m. map_of (headerIndex doc) (fst e) \<noteq> Some j) \<longrightarrow> row' ! j = row ! j"
      using Cons.IH [OF d inj' good'] by blast
    have "write_fields doc T tm (e # m) row = Inr row'"
      using r(1) None e by simp
    moreover have "\<forall>e' \<in> set (e # m). \<forall>j. map_of (headerIndex doc) (fst e') = Some j \<longrightarrow> row' ! j = cell (snd e')"
      using r(3) None e by simp
    moreover have "\<forall>j. (\<forall>e' \<in> set (e # m). map_of (headerIndex doc) (fst e') \<noteq> Some j) \<longrightarrow> row' ! j = row ! j"
      using r(4) by simp
    ultimately show ?thesis
      using r(2) by blast
  next
    case (Some j)
    have j: "j < length row"
      using head(4) Some by simp
    let ?row1 = "row[j := cell k]"
    have good': "\<forall>e \<in> set m.
           snd e < length tm \<and> snd e < length T \<and> IsExported (T ! snd e) \<and>
           write_default L (Type (T ! snd e)) (tm ! snd e) = Inr (cell (snd e)) \<and>
           (\<forall>j. map_of (headerIndex doc) (fst e) = Some j \<longrightarrow> j < length ?row1)"
      using Cons.prems(3) by simp
    obtain row' where r: "write_fields doc T tm m ?row1 = Inr row'" "length row' = length ?row1"
      "\<forall>e \<in> set m. \<forall>j. map_of (headerIndex doc) (fst e) = Some j \<longrightarrow> row' ! j = cell (snd e)"
      "\<forall>j. (\<forall>e \<in> set m. map_of (headerIndex doc) (fst e) \<noteq> Some j) \<longrightarrow> row' ! j = ?row1 ! j"
      using Cons.IH [OF d inj' good'] by blast
    have others: "\<forall>e' \<in> set m. map_of (headerIndex doc) (fst e') \<noteq> Some j"
    proof
      fix e' assume a: "e' \<in> set m"
      show "map_of (headerIndex doc) (fst e') \<noteq> Some j"
      proof
        assume "map_of (headerIndex doc) (fst e') = Some j"
        then have "fst e = fst e'"
          using Cons.prems(2) a Some e by simp
        with a fresh e show False by auto
      qed
    qed
    have at_j: "row' ! j = cell k"
      using r(4) others j by simp
    have run: "write_fields doc T tm (e # m) row = Inr row'"
      unfolding e using write_fields_step [OF custom table Some head(1,2,3) j ex] r(1) by simp
    have a: "\<forall>e' \<in> set (e # m). \<forall>j'. map_of (headerIndex doc) (fst e') = Some j' \<longrightarrow> row' ! j' = cell (snd e')"
      using r(3) at_j Some e by simp
    have b: "\<forall>j'. (\<forall>e' \<in> set (e # m). map_of (headerIndex doc) (fst e') \<noteq> Some j') \<longrightarrow> row' ! j' = row ! j'"
    proof (intro allI impI)
      fix j' assume n: "\<forall>e' \<in> set (e # m). map_of (headerIndex doc) (fst e') \<noteq> Some j'"
      then have "j' \<noteq> j"
        using Some e by auto
      moreover have "row' ! j' = ?row1 ! j'"
        using r(4) n by simp
      ultimately show "row' ! j' = row ! j'"
        by simp
    qed
    show ?thesis
      using run r(2) a b by (intro exI [of _ row']) simp
  qed
qed

text \<open>
  The loop of \<^verbatim>\<open>Read\<close>: \<open>tgt\<close> gives the field a position is read into. When no two
  positions share a field and the fields still hold their zero values, the record holds
  the value of each cell in its field, and the other fields are as before.
\<close>

lemma read_cells_skip:
  "map_of (indexHeader fr) i = None \<Longrightarrow> read_cells fr T ((i, v) # rest) t = read_cells fr T rest t"
  by simp

lemma read_cells_step:
  assumes "customConverters fr = []"
    and "map_of (indexHeader fr) i = Some nm" and "index_or_zero (reflectIndexes fr) nm = k"
    and "k < length t" and "k < length T" and "t ! k = zero_value (Type (T ! k))"
    and "read_default (defaultConverters fr) (Type (T ! k)) v = Inr x"
    and "IsExported (T ! k)"
  shows "read_cells fr T ((i, v) # rest) t = read_cells fr T rest (t[k := x])"
  using assms by (simp add: read_default_def Let_def split: option.splits)

lemma read_cells_result:
  fixes fr :: FileReader
  assumes custom: "customConverters fr = []"
    and tgt: "\<And>i. tgt i = map_option (index_or_zero (reflectIndexes fr)) (map_of (indexHeader fr) i)"
    and "distinct (map fst cells)"
    and "\<forall>e \<in> set cells. \<forall>e' \<in> set cells.
           tgt (fst e) \<noteq> None \<and> tgt (fst e) = tgt (fst e') \<longrightarrow> fst e = fst e'"
    and "\<forall>e \<in> set cells. \<forall>k. tgt (fst e) = Some k \<longrightarrow>
           k < length t \<and> k < length T \<and> t ! k = zero_value (Type (T ! k)) \<and>
           IsExported (T ! k) \<and> read_default (defaultConverters fr) (Type (T ! k)) (snd e) = Inr (val k)"
  shows "\<exists>t'. read_cells fr T cells t = Inr t' \<and> length t' = length t \<and>
           (\<forall>e \<in> set cells. \<forall>k. tgt (fst e) = Some k \<longrightarrow> t' ! k = val k) \<and>
           (\<forall>k. (\<forall>e \<in> set cells. tgt (fst e) \<noteq> Some k) \<longrightarrow> t' ! k = t ! k)"
  using assms(3-)
proof (induction cells arbitrary: t)
  case Nil
  then show ?case by simp
next
  case (Cons e cells)
  obtain i v where e: "e = (i, v)"
    by (cases e)
  have d: "distinct (map fst cells)" and fresh: "i \<notin> fst ` set cells"
    using Cons.prems(1) e by auto
  have inj': "\<forall>e \<in> set cells. \<forall>e' \<in> set cells.
           tgt (fst e) \<noteq> None \<and> tgt (fst e) = tgt (fst e') \<longrightarrow> fst e = fst e'"
  proof (intro ballI impI)
    fix a b assume "a \<in> set cells" "b \<in> set cells"
      and "tgt (fst a) \<noteq> None \<and> tgt (fst a) = tgt (fst b)"
    then show "fst a = fst b"
      using Cons.prems(2) [rule_format, of a b] by (metis list.set_intros(2))
  qed
  show ?case
  proof (cases "map_of (indexHeader fr) i")
    case None
    then have none: "tgt i = None"
      by (simp add: tgt)
    have good': "\<forall>e \<in> set cells. \<forall>k. tgt (fst e) = Some k \<longrightarrow>
           k < length t \<and> k < length T \<and> t ! k = zero_value (Type (T ! k)) \<and>
           IsExported (T ! k) \<and> read_default (defaultConverters fr) (Type (T ! k)) (snd e) = Inr (val k)"
      using Cons.prems(3) by simp
    obtain t' where r: "read_cells fr T cells t = Inr t'" "length t' = length t"
      "\<forall>e \<in> set cells. \<forall>k. tgt (fst e) = Some k \<longrightarrow> t' ! k = val k"
      "\<forall>k. (\<forall>e \<in> set cells. tgt (fst e) \<noteq> Some k) \<longrightarrow> t' ! k = t ! k"
      using Cons.IH [OF d inj' good'] by blast
    have "read_cells fr T (e # cells) t = Inr t'"
      using r(1) None e by simp
    moreover have "\<forall>e' \<in> set (e # cells). \<forall>k. tgt (fst e') = Some k \<longrightarrow> t' ! k = val k"
      using r(3) none e by simp
    moreover have "\<forall>k. (\<forall>e' \<in> set (e # cells). tgt (fst e') \<noteq> Some k) \<longrightarrow> t' ! k = t ! k"
      using r(4) by simp
    ultimately show ?thesis
      using r(2) by blast
  next
    case (Some nm)
    define k where "k = index_or_zero (reflectIndexes fr) nm"
    have some: "tgt i = Some k"
      using Some by (simp add: tgt k_def)
    have head: "k < length t" "k < length T" "t ! k = zero_value (Type (T ! k))"
      "read_default (defaultConverters fr) (Type (T ! k)) v = Inr (val k)" "IsExported (T ! k)"
      using Cons.prems(3) e some by auto
    let ?t1 = "t[k := val k]"
    have others: "\<forall>e' \<in> set cells. tgt (fst e') \<noteq> Some k"
    proof
      fix e' assume a: "e' \<in> set cells"
      show "tgt (fst e') \<noteq> Some k"
      proof
        assume "tgt (fst e') = Some k"
        then have "fst e = fst e'"
          using Cons.prems(2) a some e by simp
        with a fresh e show False by auto
      qed
    qed
    have good': "\<forall>e \<in> set cells. \<forall>k'. tgt (fst e) = Some k' \<longrightarrow>
           k' < length ?t1 \<and> k' < length T \<and> ?t1 ! k' = zero_value (Type (T ! k')) \<and>
           IsExported (T ! k') \<and> read_default (defaultConverters fr) (Type (T ! k')) (snd e) = Inr (val k')"
    proof (intro ballI allI impI)
      fix a k' assume a: "a \<in> set cells" and k': "tgt (fst a) = Some k'"
      then have "k' \<noteq> k"
        using others by auto
      then show "k' < length ?t1 \<and> k' < length T \<and> ?t1 ! k' = zero_value (Type (T ! k')) \<and>
           IsExported (T ! k') \<and> read_default (defaultConverters fr) (Type (T ! k')) (snd a) = Inr (val k')"
        using Cons.prems(3) a k' by simp
    qed
    obtain t' where r: "read_cells fr T cells ?t1 = Inr t'" "length t' = length ?t1"
      "\<forall>e \<in> set cells. \<forall>k. tgt (fst e) = Some k \<longrightarrow> t' ! k = val k"
      "\<forall>k'. (\<forall>e \<in> set cells. tgt (fst e) \<noteq> Some k') \<longrightarrow> t' ! k' = ?t1 ! k'"
      using Cons.IH [OF d inj' good'] by blast
    have at_k: "t' ! k = val k"
      using r(4) others head(1) by simp
    have run: "read_cells fr T (e # cells) t = Inr t'"
      unfolding e using read_cells_step [OF custom Some k_def [symmetric] head] r(1) by simp
    have a: "\<forall>e' \<in> set (e # cells). \<forall>k'. tgt (fst e') = Some k' \<longrightarrow> t' ! k' = val k'"
      using r(3) at_k some e by simp
    have b: "\<forall>k'. (\<forall>e' \<in> set (e # cells). tgt (fst e') \<noteq> Some k') \<longrightarrow> t' ! k' = t ! k'"
    proof (intro allI impI)
      fix k' assume n: "\<forall>e' \<in> set (e # cells). tgt (fst e') \<noteq> Some k'"
      then have "k' \<noteq> k"
        using some e by auto
      moreover have "t' ! k' = ?t1 ! k'"
        using r(4) n by simp
      ultimately show "t' ! k' = t ! k'"
        by simp
    qed
    show ?thesis
      using run r(2) a b by (intro exI [of _ t']) simp
  qed
qed

text \<open>What a successful \<^verbatim>\<open>NewFileWriter\<close> returns, the first \<^verbatim>\<open>Write\<close>, and \<^verbatim>\<open>Close\<close>.\<close>

lemma NewFileWriter_Inr:
  assumes "NewFileWriter os T L path options = (Inr doc, os1)"
  shows "\<exists>ri. buildReflectTagIndexCache T True = Inr ri \<and> reflectIndexes doc = ri \<and>
           buildWriteHeaderNameIndexCache (slice (outputHeader (opts doc))) ri
             = Inr (headerIndex doc, indexHeader doc)"
    and "defaultConverters doc = buildWriteDefaultConverters L"
    and "customConverters doc = []"
    and "\<not> hasWrittenHeaders doc"
    and "Comma (cw doc) = escapeRune (opts doc)" and "buffered (cw doc) = []" and "werr (cw doc) = None"
    and "os_OpenFile os path = (Inr (f doc), os1)"
    and "\<not> hasWrittenHeaderMux doc"
  using assms
  by (auto simp: NewFileWriter_def Let_def slice_def csv_NewWriter_def
           split: prod.splits sum.splits if_splits)

lemma os_OpenFile_Inr:
  assumes "os_OpenFile os path = (Inr file, os1)"
  shows "fd file \<in> set (open_fds os1)" and "name file = path" and "file_bytes os1 path = []"
    and "write_error os1 = write_error os"
  using assms
  by (auto simp: os_OpenFile_def file_bytes_def update_conv' split: option.splits)

lemma write_fields_writer_state:
  "write_fields (doc\<lparr>cw := c, hasWrittenHeaders := b\<rparr>) T tm m r = write_fields doc T tm m r"
  by (induction m arbitrary: r) (auto simp: Let_def split: option.splits sum.splits)

lemma Write_first_record:
  assumes "\<not> hasWrittenHeaders doc" and "writeHeader (opts doc)"
    and "validDelim (Comma (cw doc))" and "werr (cw doc) = None" and "buffered (cw doc) = []"
    and "write_fields doc T tm (reflectIndexes doc)
           (replicate (length (slice (outputHeader (opts doc)))) []) = Inr row"
    and "\<not> hasWrittenHeaderMux doc"
  shows "Write doc T tm =
           (None, doc\<lparr>cw := (cw doc)\<lparr>buffered := [slice (outputHeader (opts doc)), row]\<rparr>,
                      hasWrittenHeaders := True\<rparr>)"
  using assms by (simp add: Write_def csv_Write_def write_fields_writer_state)

lemma Close_after_Write:
  assumes "werr (cw doc) = None" and "buffered (cw doc) \<noteq> []"
    and "fd (f doc) \<in> set (open_fds os)" and "write_error os (fd (f doc)) = None"
  shows "file_bytes (snd (snd (Close doc os))) (name (f doc))
           = file_bytes os (name (f doc))
               @ csv_bytes (Comma (cw doc)) (UseCRLF (cw doc)) (buffered (cw doc))"
  using assms
  by (simp add: Close_def csv_Flush_def File_Close_def file_bytes_def update_conv' split: prod.splits)

text \<open>The resolved map as a bijection between names and bound indexes; a reader that opens.\<close>

lemma distinct_snd_same_key:
  "distinct (map snd xs) \<Longrightarrow> (a, k) \<in> set xs \<Longrightarrow> (b, k) \<in> set xs \<Longrightarrow> a = b"
  by (induction xs) force+

lemma resolved_index_facts:
  assumes "buildReflectTagIndexCache T fw = Inr ri"
  shows "map_of ri nm = Some k \<Longrightarrow> k < length T \<and> is_bound fw (T ! k)"
    and "k < length T \<Longrightarrow> is_bound fw (T ! k) \<Longrightarrow> \<exists>nm. map_of ri nm = Some k"
    and "map_of ri nm = Some k \<Longrightarrow> map_of ri nm' = Some k \<Longrightarrow> nm = nm'"
proof -
  note d = resolved_distinct [OF assms]
  note idx = resolved_indexes [OF assms]
  have mem: "map_of ri a = Some b \<longleftrightarrow> (a, b) \<in> set ri" for a b
    using d by simp
  have ds: "distinct (map snd ri)"
    unfolding idx by simp
  have range: "b \<in> snd ` set ri \<longleftrightarrow> b < length T \<and> is_bound fw (T ! b)" for b
  proof -
    have "snd ` set ri = set (map snd ri)"
      by simp
    also have "\<dots> = {b. b < length T \<and> is_bound fw (T ! b)}"
      unfolding idx by auto
    finally show ?thesis
      by simp
  qed
  show "k < length T \<and> is_bound fw (T ! k)" if "map_of ri nm = Some k"
  proof -
    have "(nm, k) \<in> set ri"
      using that mem by simp
    then have "k \<in> snd ` set ri"
      by force
    then show ?thesis
      using range by simp
  qed
  show "\<exists>nm. map_of ri nm = Some k" if "k < length T" "is_bound fw (T ! k)"
  proof -
    have "k \<in> snd ` set ri"
      using that range by simp
    then obtain a where "(a, k) \<in> set ri"
      by force
    then show ?thesis
      using mem by blast
  qed
  show "nm = nm'" if "map_of ri nm = Some k" "map_of ri nm' = Some k"
    using that mem distinct_snd_same_key [OF ds] by blast
qed

lemma NewFileReader_Inr:
  assumes ri: "buildReflectTagIndexCache_read T = Inr ri"
    and fr: "NewFileReader T L (Inr (Inr hdr)) = Inr fr"
  shows "reflectIndexes fr = ri" and "customConverters fr = []"
    and "defaultConverters fr = buildDefaultConverts L"
    and "map_of (indexHeader fr) p = Some nm \<longleftrightarrow> p < length hdr \<and> hdr ! p = nm \<and> map_of ri nm \<noteq> None"
    and "map_of ri nm \<noteq> None \<Longrightarrow> nm \<in> set hdr"
proof -
  note open_eq = NewFileReader_bind [OF ri, of L hdr]
  obtain ni inn where b: "buildHeaderNameIndexCache hdr ri = Inr (ni, inn)"
    and f: "fr = \<lparr>reflectIndexes = ri, headerIndex = ni, indexHeader = inn,
                  defaultConverters = buildDefaultConverts L, customConverters = []\<rparr>"
    using fr unfolding open_eq by (auto split: sum.splits)
  have loop: "header_loop hdr 0 ri [] [] = Inr (ni, inn)"
    and all: "\<not> (\<exists>nm. map_of ri nm \<noteq> None \<and> nm \<notin> set hdr)"
    using b unfolding bind_cases by (auto split: if_splits)
  show "reflectIndexes fr = ri" and "customConverters fr = []"
    and "defaultConverters fr = buildDefaultConverts L"
    by (simp_all add: f)
  show "map_of (indexHeader fr) p = Some nm \<longleftrightarrow> p < length hdr \<and> hdr ! p = nm \<and> map_of ri nm \<noteq> None"
    using header_loop_indexName_Some [OF loop, of p nm] by (simp add: f)
  show "nm \<in> set hdr" if "map_of ri nm \<noteq> None"
    using all that by blast
qed

subsection \<open>Round trip of a record\<close>

text \<open>
  Claim C1, with the conditions the code needs. Take a record type whose tags name the
  same column for reading and for writing, a writer made by \<^verbatim>\<open>NewFileWriter\<close> with the
  comma as delimiter that writes its header, a host that does not fail the write, and a
  reader that \<^verbatim>\<open>NewFileReader\<close> opens on that header. Take a record whose write-bound
  fields are exported, have types that both the write table and the reader's table
  cover, and hold values the text can tell apart: a valid \<^verbatim>\<open>NullString\<close> is not empty, a
  wrapper in the null state holds the zero payload, a float and a time are printed as a
  text the library parses back, and no \<^verbatim>\<open>NullFloat64\<close> is valid; the fields that are not
  write-bound hold their zero values. Let the header and the row that \<^verbatim>\<open>Write\<close> hands to
  the csv writer each have a cell, not be a single empty cell, and hold no carriage
  return. Then \<^verbatim>\<open>Write\<close> succeeds, and from the bytes the file holds after \<^verbatim>\<open>Close\<close> the
  csv reader reads the header and then a row of which \<^verbatim>\<open>Read\<close> makes a record equal to
  the original in every field.
\<close>

theorem write_then_read_round_trip:
  assumes names: "buildReflectTagIndexCache_read T = buildReflectTagIndexCache T True"
    and w: "NewFileWriter os T L path options = (Inr doc, os1)"
    and comma: "escapeRune (opts doc) = 44"
    and wh: "writeHeader (opts doc)"
    and disk: "write_error os1 (fd (f doc)) = None"
    and r: "NewFileReader T L (Inr (Inr (slice (outputHeader (opts doc))))) = Inr fr"
    and len: "length tm = length T"
    and fields: "\<forall>k<length T.
          if is_bound True (T ! k)
          then IsExported (T ! k) \<and>
               has_type (Type (T ! k)) (tm ! k) \<and> text_faithful L (Type (T ! k)) (tm ! k) \<and>
               buildWriteDefaultConverters L (Type (T ! k)) \<noteq> None \<and>
               buildDefaultConverts L (Type (T ! k)) \<noteq> None \<and>
               (\<forall>x. tm ! k \<noteq> VNullFloat64 x True)
          else tm ! k = zero_value (Type (T ! k))"
    and wr: "Write doc T tm = (res, doc1)"
    and plain: "\<forall>rec \<in> set (buffered (cw doc1)).
                  rec \<noteq> [] \<and> rec \<noteq> [[]] \<and> (\<forall>c \<in> set rec. CR \<notin> set c)"
    and cl: "Close doc1 os1 = (cerr, doc2, os2)"
  shows "res = None \<and>
         (\<exists>row cr1 cr2.
            csv_Reader_Read (csv_NewReader (file_bytes os2 path))
              = (Inr (slice (outputHeader (opts doc))), cr1) \<and>
            csv_Reader_Read cr1 = (Inr row, cr2) \<and>
            Read fr T (Inr row) = Inr tm)"
proof -
  define hdr where "hdr = slice (outputHeader (opts doc))"
  note wf = NewFileWriter_Inr [OF w]
  obtain ri where ri: "buildReflectTagIndexCache T True = Inr ri" and rdoc: "reflectIndexes doc = ri"
    and bind: "buildWriteHeaderNameIndexCache hdr ri = Inr (headerIndex doc, indexHeader doc)"
    using wf(1) unfolding hdr_def by blast
  note wb = write_bind_facts [OF bind]
  note rs = resolved_index_facts [OF ri]
  have rri: "buildReflectTagIndexCache_read T = Inr ri"
    using names ri by simp
  note rf = NewFileReader_Inr [OF rri r [folded hdr_def]]
  note d = resolved_distinct [OF ri]
  have mem: "map_of ri a = Some b \<longleftrightarrow> (a, b) \<in> set ri" for a b
    using d by simp

  define cell where "cell k = (case write_default L (Type (T ! k)) (tm ! k) of Inr c \<Rightarrow> c | Inl e \<Rightarrow> [])" for k
  have cell: "write_default L (Type (T ! k)) (tm ! k) = Inr (cell k) \<and>
              read_default (buildDefaultConverts L) (Type (T ! k)) (cell k) = Inr (tm ! k)"
    if "k < length T" "is_bound True (T ! k)" for k
  proof -
    have c: "has_type (Type (T ! k)) (tm ! k)" "text_faithful L (Type (T ! k)) (tm ! k)"
      "buildWriteDefaultConverters L (Type (T ! k)) \<noteq> None" "buildDefaultConverts L (Type (T ! k)) \<noteq> None"
      "\<And>x. tm ! k \<noteq> VNullFloat64 x True"
      using fields that by simp_all
    obtain c where "write_default L (Type (T ! k)) (tm ! k) = Inr c"
      "read_default (buildDefaultConverts L) (Type (T ! k)) c = Inr (tm ! k)"
      using cell_round_trip_dc [OF c] by blast
    then show ?thesis
      by (simp add: cell_def)
  qed

  have exported: "IsExported (T ! k)" if "k < length T" "is_bound True (T ! k)" for k
    using fields that by simp

  have w_inj: "\<forall>e \<in> set ri. \<forall>e' \<in> set ri.
           map_of (headerIndex doc) (fst e) \<noteq> None \<and>
           map_of (headerIndex doc) (fst e) = map_of (headerIndex doc) (fst e') \<longrightarrow> fst e = fst e'"
  proof (intro ballI impI)
    fix e e' assume "map_of (headerIndex doc) (fst e) \<noteq> None \<and>
           map_of (headerIndex doc) (fst e) = map_of (headerIndex doc) (fst e')"
    then obtain p where "map_of (headerIndex doc) (fst e) = Some p" "map_of (headerIndex doc) (fst e') = Some p"
      by (metis not_None_eq)
    then show "fst e = fst e'"
      using wb(1) by simp
  qed
  have w_good: "\<forall>e \<in> set ri.
           snd e < length tm \<and> snd e < length T \<and> IsExported (T ! snd e) \<and>
           write_default L (Type (T ! snd e)) (tm ! snd e) = Inr (cell (snd e)) \<and>
           (\<forall>j. map_of (headerIndex doc) (fst e) = Some j \<longrightarrow> j < length (replicate (length hdr) ([] :: string)))"
  proof
    fix e assume "e \<in> set ri"
    then have "map_of ri (fst e) = Some (snd e)"
      using mem by simp
    then have "snd e < length T \<and> is_bound True (T ! snd e)"
      by (rule rs(1))
    then show "snd e < length tm \<and> snd e < length T \<and> IsExported (T ! snd e) \<and>
           write_default L (Type (T ! snd e)) (tm ! snd e) = Inr (cell (snd e)) \<and>
           (\<forall>j. map_of (headerIndex doc) (fst e) = Some j \<longrightarrow> j < length (replicate (length hdr) ([] :: string)))"
      using cell exported len wb(1) by simp
  qed
  obtain row where row: "write_fields doc T tm ri (replicate (length hdr) []) = Inr row"
    and lrow: "length row = length hdr"
    and filled: "\<forall>e \<in> set ri. \<forall>j. map_of (headerIndex doc) (fst e) = Some j \<longrightarrow> row ! j = cell (snd e)"
    using write_fields_result [OF wf(3) wf(2) d w_inj w_good] by auto

  have at: "\<exists>k. map_of ri (hdr ! j) = Some k \<and> row ! j = cell k" if j: "j < length hdr" for j
  proof -
    obtain k where k: "map_of ri (hdr ! j) = Some k"
      using wb(2) [OF j] by blast
    then have "(hdr ! j, k) \<in> set ri"
      using mem by simp
    moreover have "map_of (headerIndex doc) (hdr ! j) = Some j"
      using wb(1) j by simp
    ultimately have "row ! j = cell k"
      using filled by force
    with k show ?thesis
      by blast
  qed

  define doc' where "doc' = doc\<lparr>cw := (cw doc)\<lparr>buffered := [hdr, row]\<rparr>, hasWrittenHeaders := True\<rparr>"
  have delim: "validDelim (escapeRune (opts doc))"
    using comma by (simp add: validDelim_def)
  have "Write doc T tm = (None, doc')"
    unfolding doc'_def hdr_def
    by (rule Write_first_record) (use wf wh delim row rdoc in \<open>simp_all add: hdr_def\<close>)
  then have written: "res = None" "doc1 = doc'"
    using wr by simp_all
  have handed: "buffered (cw doc1) = [hdr, row]"
    using written(2) by (simp add: doc'_def)
  note at_open = os_OpenFile_Inr [OF wf(8)]
  have "file_bytes (snd (snd (Close doc' os1))) path = csv_bytes 44 (UseCRLF (cw doc)) [hdr, row]"
    using Close_after_Write [of doc' os1] wf at_open disk comma by (simp add: doc'_def)
  then have closed: "file_bytes os2 path = csv_bytes 44 (UseCRLF (cw doc)) [hdr, row]"
    using cl written(2) by simp
  have p: "hdr \<noteq> []" "hdr \<noteq> [[]]" "row \<noteq> [[]]"
    "\<forall>c \<in> set hdr. CR \<notin> set c" "\<forall>c \<in> set row. CR \<notin> set c"
    using plain handed by simp_all
  note reads = csv_reads_back(1) [OF p(1,2,3) lrow p(4,5), of "UseCRLF (cw doc)"]
    csv_reads_back(2) [OF p(1,2,3) lrow p(4,5)]

  define tgt where "tgt i = map_option (index_or_zero (reflectIndexes fr)) (map_of (indexHeader fr) i)" for i
  have tgt: "tgt i = Some k \<longleftrightarrow> i < length hdr \<and> map_of ri (hdr ! i) = Some k" for i k
  proof
    assume "tgt i = Some k"
    then obtain nm where nm: "map_of (indexHeader fr) i = Some nm" "index_or_zero ri nm = k"
      by (auto simp: tgt_def rf(1))
    from nm(1) have "i < length hdr" "hdr ! i = nm" "map_of ri nm \<noteq> None"
      using rf(4) by simp_all
    with nm(2) show "i < length hdr \<and> map_of ri (hdr ! i) = Some k"
      by (auto simp: index_or_zero_def)
  next
    assume a: "i < length hdr \<and> map_of ri (hdr ! i) = Some k"
    then have "map_of (indexHeader fr) i = Some (hdr ! i)"
      using rf(4) by simp
    with a show "tgt i = Some k"
      by (simp add: tgt_def rf(1) index_or_zero_def)
  qed
  let ?cells = "zip [0..<length row] row"
  have cells: "e \<in> set ?cells \<longleftrightarrow> fst e < length hdr \<and> snd e = row ! fst e" for e
    using lrow in_set_enumerate_eq [of e 0 row] by (auto simp: enumerate_eq_zip)
  have r_dist: "distinct (map fst ?cells)"
    by simp
  have r_inj: "\<forall>e \<in> set ?cells. \<forall>e' \<in> set ?cells.
           tgt (fst e) \<noteq> None \<and> tgt (fst e) = tgt (fst e') \<longrightarrow> fst e = fst e'"
  proof (intro ballI impI)
    fix e e' assume "tgt (fst e) \<noteq> None \<and> tgt (fst e) = tgt (fst e')"
    then obtain k where "tgt (fst e) = Some k" "tgt (fst e') = Some k"
      by (metis not_None_eq)
    then have b: "fst e < length hdr" "fst e' < length hdr"
      "map_of ri (hdr ! fst e) = Some k" "map_of ri (hdr ! fst e') = Some k"
      using tgt by simp_all
    then have "hdr ! fst e = hdr ! fst e'"
      using rs(3) by blast
    moreover have "map_of (headerIndex doc) (hdr ! fst e) = Some (fst e)"
      "map_of (headerIndex doc) (hdr ! fst e') = Some (fst e')"
      using wb(1) b by simp_all
    ultimately show "fst e = fst e'"
      by (metis option.inject)
  qed
  have r_good: "\<forall>e \<in> set ?cells. \<forall>k. tgt (fst e) = Some k \<longrightarrow>
           k < length (new T) \<and> k < length T \<and> new T ! k = zero_value (Type (T ! k)) \<and>
           IsExported (T ! k) \<and> read_default (defaultConverters fr) (Type (T ! k)) (snd e) = Inr (tm ! k)"
  proof (intro ballI allI impI)
    fix e k assume e: "e \<in> set ?cells" and k: "tgt (fst e) = Some k"
    have i: "fst e < length hdr" "snd e = row ! fst e"
      using e cells by simp_all
    have m: "map_of ri (hdr ! fst e) = Some k"
      using k tgt by simp
    then have b: "k < length T" "is_bound True (T ! k)"
      using rs(1) by blast+
    have "row ! fst e = cell k"
      using at [OF i(1)] m by auto
    then show "k < length (new T) \<and> k < length T \<and> new T ! k = zero_value (Type (T ! k)) \<and>
           IsExported (T ! k) \<and> read_default (defaultConverters fr) (Type (T ! k)) (snd e) = Inr (tm ! k)"
      using b cell [OF b] exported [OF b] i(2) by (simp add: new_def rf(3))
  qed
  obtain t' where t': "read_cells fr T ?cells (new T) = Inr t'" and lt: "length t' = length (new T)"
    and hit: "\<forall>e \<in> set ?cells. \<forall>k. tgt (fst e) = Some k \<longrightarrow> t' ! k = tm ! k"
    and miss: "\<forall>k. (\<forall>e \<in> set ?cells. tgt (fst e) \<noteq> Some k) \<longrightarrow> t' ! k = new T ! k"
    using read_cells_result [OF rf(2) tgt_def r_dist r_inj r_good] by blast
  have "t' = tm"
  proof (rule nth_equalityI)
    show "length t' = length tm"
      using lt len by (simp add: new_def)
  next
    fix k assume "k < length t'"
    then have k: "k < length T"
      using lt by (simp add: new_def)
    show "t' ! k = tm ! k"
    proof (cases "is_bound True (T ! k)")
      case True
      then obtain nm where nm: "map_of ri nm = Some k"
        using rs(2) [OF k] by blast
      then have "nm \<in> set hdr"
        using rf(5) by simp
      then obtain i where i: "i < length hdr" "hdr ! i = nm"
        by (auto simp: in_set_conv_nth)
      then have "tgt i = Some k"
        using tgt nm by simp
      moreover have "(i, row ! i) \<in> set ?cells"
        using cells [of "(i, row ! i)"] i by simp
      ultimately show ?thesis
        using hit by force
    next
      case False
      have "\<forall>e \<in> set ?cells. tgt (fst e) \<noteq> Some k"
      proof
        fix e show "tgt (fst e) \<noteq> Some k"
        proof
          assume "tgt (fst e) = Some k"
          then have "map_of ri (hdr ! fst e) = Some k"
            using tgt by simp
          then show False
            using rs(1) False by blast
        qed
      qed
      then have "t' ! k = new T ! k"
        using miss by simp
      then show ?thesis
        using k False fields by (simp add: new_def)
    qed
  qed
  then have "Read fr T (Inr row) = Inr tm"
    using t' by (simp add: Read_def)
  then have "\<exists>row cr1 cr2.
            csv_Reader_Read (csv_NewReader (file_bytes os2 path)) = (Inr hdr, cr1) \<and>
            csv_Reader_Read cr1 = (Inr row, cr2) \<and>
            Read fr T (Inr row) = Inr tm"
    using reads unfolding closed by blast
  with written(1) show ?thesis
    unfolding hdr_def by simp
qed

text \<open>
  The table of \<^verbatim>\<open>NewFileReader\<close> has no converter for \<^verbatim>\<open>bool\<close> and \<^verbatim>\<open>sql.NullBool\<close>,
  and its converter for \<^verbatim>\<open>sql.NullFloat64\<close> panics on a cell that is not empty, so these
  are outside the theorem. Where claim C1 as stated fails for types both tables cover: a
  \<^verbatim>\<open>NullString\<close> that is valid and empty is written as the empty cell, which the reader
  takes for the null state. On a host where nothing fails, the record
  \<^verbatim>\<open>{ID: 7, Nick: {String: "", Valid: true}}\<close> is written after the header as the line
  \<^verbatim>\<open>7,\<close>, the csv reader reads the cells \<^verbatim>\<open>7\<close> and the empty cell from the file, and
  \<^verbatim>\<open>Read\<close> makes of them \<^verbatim>\<open>{ID: 7, Nick: {String: "", Valid: false}}\<close>.
\<close>

theorem valid_empty_NullString_reads_back_null:
  "has_type TInt64 (VInt 7) \<and> has_type TNullString (VNullString [] True) \<and>
   buildWriteDefaultConverters no_float_time TInt64 \<noteq> None \<and>
   buildDefaultConverts no_float_time TInt64 \<noteq> None \<and>
   buildWriteDefaultConverters no_float_time TNullString \<noteq> None \<and>
   buildDefaultConverts no_float_time TNullString \<noteq> None \<and>
   (\<exists>doc os1 doc1 doc2 os2 cr1 cr2 fr.
      NewFileWriter quiet_host Account no_float_time ''out.csv'' [] = (Inr doc, os1) \<and>
      Write doc Account [VInt 7, VNullString [] True] = (None, doc1) \<and>
      Close doc1 os1 = (None, doc2, os2) \<and>
      file_bytes os2 ''out.csv'' = ''id,nick'' @ [LF] @ ''7,'' @ [LF] \<and>
      csv_Reader_Read (csv_NewReader (file_bytes os2 ''out.csv'')) = (Inr [''id'', ''nick''], cr1) \<and>
      NewFileReader Account no_float_time (Inr (Inr [''id'', ''nick''])) = Inr fr \<and>
      csv_Reader_Read cr1 = (Inr [''7'', ''''], cr2) \<and>
      Read fr Account (Inr [''7'', '''']) = Inr [VInt 7, VNullString [] False])"
proof -
  have a: "has_type TInt64 (VInt 7)" "has_type TNullString (VNullString [] True)"
    by (simp_all add: has_type_def int_bits_def)
  have b: "buildWriteDefaultConverters no_float_time TInt64 \<noteq> None"
    "buildDefaultConverts no_float_time TInt64 \<noteq> None"
    "buildWriteDefaultConverters no_float_time TNullString \<noteq> None"
    "buildDefaultConverts no_float_time TNullString \<noteq> None"
    by (simp_all add: table_defs)
  obtain doc os1 where w: "NewFileWriter quiet_host Account no_float_time ''out.csv'' [] = (Inr doc, os1)"
    by (simp add: eval_defs Account_def)
  obtain doc1 where wr: "Write doc Account [VInt 7, VNullString [] True] = (None, doc1)"
    using w by (auto simp: eval_defs Account_def table_defs wdc_intConversion_def
        wdc_sqlNullStringConversion_def)
  obtain doc2 os2 where cl: "Close doc1 os1 = (None, doc2, os2)"
    using w wr by (auto simp: eval_defs Account_def table_defs wdc_intConversion_def
        wdc_sqlNullStringConversion_def)
  have c: "file_bytes os2 ''out.csv'' = ''id,nick'' @ [LF] @ ''7,'' @ [LF]"
    using w wr cl by (auto simp: eval_defs Account_def table_defs wdc_intConversion_def
        wdc_sqlNullStringConversion_def FormatInt_def FormatUint.simps digit_char_def csv_defs)
  obtain cr1 where r1: "csv_Reader_Read (csv_NewReader (file_bytes os2 ''out.csv'')) = (Inr [''id'', ''nick''], cr1)"
    and r2: "\<exists>cr2. csv_Reader_Read cr1 = (Inr [''7'', ''''], cr2)"
    unfolding c by (simp add: csv_defs)
  obtain cr2 where r2: "csv_Reader_Read cr1 = (Inr [''7'', ''''], cr2)"
    using r2 by blast
  obtain fr where fr: "NewFileReader Account no_float_time (Inr (Inr [''id'', ''nick''])) = Inr fr"
    by (simp add: eval_defs Account_def)
  have rd: "Read fr Account (Inr [''7'', '''']) = Inr [VInt 7, VNullString [] False]"
    using fr by (auto simp: eval_defs Account_def table_defs dc_intConversion_def
        sqlNullStringConversion_def Set_field_def ParseInt_def ParseUint_def isDigit_def
        OverflowInt_def int_bits_def)
  from w wr cl c r1 fr r2 rd have "\<exists>doc os1 doc1 doc2 os2 cr1 cr2 fr.
      NewFileWriter quiet_host Account no_float_time ''out.csv'' [] = (Inr doc, os1) \<and>
      Write doc Account [VInt 7, VNullString [] True] = (None, doc1) \<and>
      Close doc1 os1 = (None, doc2, os2) \<and>
      file_bytes os2 ''out.csv'' = ''id,nick'' @ [LF] @ ''7,'' @ [LF] \<and>
      csv_Reader_Read (csv_NewReader (file_bytes os2 ''out.csv'')) = (Inr [''id'', ''nick''], cr1) \<and>
      NewFileReader Account no_float_time (Inr (Inr [''id'', ''nick''])) = Inr fr \<and>
      csv_Reader_Read cr1 = (Inr [''7'', ''''], cr2) \<and>
      Read fr Account (Inr [''7'', '''']) = Inr [VInt 7, VNullString [] False]"
    by blast
  with a b show ?thesis
    by blast
qed

text \<open>
  The theorem of claim C1 at \<open>Member\<close>, on a host where nothing fails: the record
  \<^verbatim>\<open>{ID: 7, Name: "alice", Nick: {Valid: false}, Note: ""}\<close> is written as the line
  \<^verbatim>\<open>7,alice,\<close> and comes back as it was.
\<close>

theorem write_then_read_round_trip_witness:
  "buildReflectTagIndexCache_read Member = buildReflectTagIndexCache Member True \<and>
   (\<exists>doc os1 doc1 cerr doc2 os2 fr.
      NewFileWriter quiet_host Member no_float_time ''members.csv'' [] = (Inr doc, os1) \<and>
      escapeRune (opts doc) = 44 \<and> writeHeader (opts doc) \<and>
      write_error os1 (fd (f doc)) = None \<and>
      outputHeader (opts doc) = Some [''id'', ''name'', ''nick''] \<and>
      NewFileReader Member no_float_time (Inr (Inr [''id'', ''name'', ''nick''])) = Inr fr \<and>
      Write doc Member [VInt 7, VString ''alice'', VNullString [] False, VString []] = (None, doc1) \<and>
      buffered (cw doc1) = [[''id'', ''name'', ''nick''], [''7'', ''alice'', '''']] \<and>
      Close doc1 os1 = (cerr, doc2, os2) \<and>
      (\<exists>row cr1 cr2.
         csv_Reader_Read (csv_NewReader (file_bytes os2 ''members.csv''))
           = (Inr [''id'', ''name'', ''nick''], cr1) \<and>
         csv_Reader_Read cr1 = (Inr row, cr2) \<and>
         Read fr Member (Inr row) = Inr [VInt 7, VString ''alice'', VNullString [] False, VString []]))"
proof -
  let ?tm = "[VInt 7, VString ''alice'', VNullString [] False, VString []]"
  have names: "buildReflectTagIndexCache_read Member = buildReflectTagIndexCache Member True"
    by (simp add: eval_defs Member_def)
  obtain doc os1 where w: "NewFileWriter quiet_host Member no_float_time ''members.csv'' [] = (Inr doc, os1)"
    by (simp add: eval_defs Member_def)
  have o: "outputHeader (opts doc) = Some [''id'', ''name'', ''nick'']"
    "escapeRune (opts doc) = 44" "writeHeader (opts doc)"
    "write_error os1 (fd (f doc)) = None"
    using w by (auto simp: eval_defs Member_def)
  obtain fr where fr: "NewFileReader Member no_float_time (Inr (Inr [''id'', ''name'', ''nick''])) = Inr fr"
    by (simp add: eval_defs Member_def)
  have r: "NewFileReader Member no_float_time (Inr (Inr (slice (outputHeader (opts doc))))) = Inr fr"
    using fr o(1) by (simp add: slice_def)
  have len: "length ?tm = length Member"
    by (simp add: Member_def)
  have fields: "\<forall>k<length Member.
          if is_bound True (Member ! k)
          then IsExported (Member ! k) \<and>
               has_type (Type (Member ! k)) (?tm ! k) \<and> text_faithful no_float_time (Type (Member ! k)) (?tm ! k) \<and>
               buildWriteDefaultConverters no_float_time (Type (Member ! k)) \<noteq> None \<and>
               buildDefaultConverts no_float_time (Type (Member ! k)) \<noteq> None \<and>
               (\<forall>x. ?tm ! k \<noteq> VNullFloat64 x True)
          else ?tm ! k = zero_value (Type (Member ! k))"
    by (simp add: Member_def All_less_Suc tag_defs has_type_def text_faithful_def table_defs
          int_bits_def zero_value_def)
  obtain doc1 where wr: "Write doc Member ?tm = (None, doc1)"
    and handed: "buffered (cw doc1) = [[''id'', ''name'', ''nick''], [''7'', ''alice'', '''']]"
    using w by (auto simp: eval_defs Member_def table_defs wdc_intConversion_def
        wdc_stringConversion_def wdc_sqlNullStringConversion_def FormatInt_def FormatUint.simps
        digit_char_def)
  have plain: "\<forall>rec \<in> set (buffered (cw doc1)).
                  rec \<noteq> [] \<and> rec \<noteq> [[]] \<and> (\<forall>c \<in> set rec. CR \<notin> set c)"
    unfolding handed by simp
  obtain cerr doc2 os2 where cl: "Close doc1 os1 = (cerr, doc2, os2)"
    by (cases "Close doc1 os1") auto
  have "None = None \<and> (\<exists>row cr1 cr2.
         csv_Reader_Read (csv_NewReader (file_bytes os2 ''members.csv''))
           = (Inr [''id'', ''name'', ''nick''], cr1) \<and>
         csv_Reader_Read cr1 = (Inr row, cr2) \<and>
         Read fr Member (Inr row) = Inr ?tm)"
    using write_then_read_round_trip [OF names w o(2) o(3) o(4) r len fields wr plain cl] o(1)
    by (simp add: slice_def)
  with w o fr wr handed cl have "\<exists>doc os1 doc1 cerr doc2 os2 fr.
      NewFileWriter quiet_host Member no_float_time ''members.csv'' [] = (Inr doc, os1) \<and>
      escapeRune (opts doc) = 44 \<and> writeHeader (opts doc) \<and>
      write_error os1 (fd (f doc)) = None \<and>
      outputHeader (opts doc) = Some [''id'', ''name'', ''nick''] \<and>
      NewFileReader Member no_float_time (Inr (Inr [''id'', ''name'', ''nick''])) = Inr fr \<and>
      Write doc Member ?tm = (None, doc1) \<and>
      buffered (cw doc1) = [[''id'', ''name'', ''nick''], [''7'', ''alice'', '''']] \<and>
      Close doc1 os1 = (cerr, doc2, os2) \<and>
      (\<exists>row cr1 cr2.
         csv_Reader_Read (csv_NewReader (file_bytes os2 ''members.csv''))
           = (Inr [''id'', ''name'', ''nick''], cr1) \<and>
         csv_Reader_Read cr1 = (Inr row, cr2) \<and>
         Read fr Member (Inr row) = Inr ?tm)"
    by blast
  with names show ?thesis
    by blast
qed

end
